theory Spec2Isabelle
  imports Main
begin

section \<open>The build orchestrator of inert and its markdown stage\<close>

text \<open>
  The development embeds two source files: the orchestrator \<^verbatim>\<open>build\<close> (the file that
  imports \<^verbatim>\<open>./utils/traverse\<close>, \<^verbatim>\<open>./utils/dirs\<close> and \<^verbatim>\<open>./utils/file\<close>) and
  \<^verbatim>\<open>src/core/build/user-utils/markdown.ts\<close>.

  Effects are explicit. Everything a stage or the orchestrator can change is the store
  \<open>sys\<close>: the file system, the mutable \<^verbatim>\<open>custom\<close> field of the configuration object,
  and the asynchronous work that has been started and not awaited.
  Every function returns the store it leaves behind, and the orchestrator also returns the
  calls it made to its collaborators (spinner, logger, file discovery, stages), in order.
  A JavaScript exception (a rejected promise of the \<^verbatim>\<open>async\<close> function) is the \<open>Inl\<close>
  branch of the result.
\<close>

subsection \<open>Paths and the file system\<close>

text \<open>
  A path is the list of its segments, already normalised; \<^verbatim>\<open>path.join\<close> is append. The
  root is \<open>[]\<close> and always exists.
\<close>

type_synonym path = "string list"

datatype node = Dir | File string

type_synonym filesystem = "path \<rightharpoonup> node"

datatype exn = EEXIST path | ENOENT path | ENOTDIR path | EISDIR path | Thrown string

definition existsSync :: "filesystem \<Rightarrow> path \<Rightarrow> bool" where
  "existsSync fs p = (p = [] \<or> fs p \<noteq> None)"

definition is_dir :: "filesystem \<Rightarrow> path \<Rightarrow> bool" where
  "is_dir fs p = (p = [] \<or> fs p = Some Dir)"

text \<open>
  \<^verbatim>\<open>fsPromises.mkdir(p)\<close> of Node: fails when \<open>p\<close> exists, when its parent does not, or
  when the parent is a file. Permission and device errors are not modelled.
\<close>

definition mkdir :: "path \<Rightarrow> filesystem \<Rightarrow> exn + filesystem" where
  "mkdir p fs =
     (if existsSync fs p then Inl (EEXIST p)
      else if \<not> existsSync fs (butlast p) then Inl (ENOENT p)
      else if \<not> is_dir fs (butlast p) then Inl (ENOTDIR p)
      else Inr (fs(p \<mapsto> Dir)))"

text \<open>
  \<^verbatim>\<open>fsPromises.mkdir(p, { recursive: true })\<close>: walks the segments of \<open>p\<close> from the root,
  keeps a directory that is there, creates one that is missing, and fails on a file in
  the way.
\<close>

fun mkdir_from :: "path \<Rightarrow> string list \<Rightarrow> filesystem \<Rightarrow> exn + filesystem" where
  "mkdir_from pre [] fs = Inr fs"
| "mkdir_from pre (seg # segs) fs =
     (case fs (pre @ [seg]) of
        None \<Rightarrow> mkdir_from (pre @ [seg]) segs (fs(pre @ [seg] \<mapsto> Dir))
      | Some Dir \<Rightarrow> mkdir_from (pre @ [seg]) segs fs
      | Some (File c) \<Rightarrow>
          Inl (if segs = [] then EEXIST (pre @ [seg]) else ENOTDIR (pre @ seg # segs)))"

definition mkdir_recursive :: "path \<Rightarrow> filesystem \<Rightarrow> exn + filesystem" where
  "mkdir_recursive p fs = mkdir_from [] p fs"

definition readFileSync :: "path \<Rightarrow> filesystem \<Rightarrow> exn + string" where
  "readFileSync p fs =
     (case fs p of
        None \<Rightarrow> Inl (ENOENT p)
      | Some Dir \<Rightarrow> Inl (EISDIR p)
      | Some (File c) \<Rightarrow> Inr c)"

subsection \<open>The store, the configuration and the stages\<close>

text \<open>
  \<^verbatim>\<open>Ora\<close>, as far as the source reads and writes it: the \<^verbatim>\<open>text\<close> property, \<open>None\<close>
  for \<^verbatim>\<open>undefined\<close> (the field is \<open>text'\<close>, since \<open>text\<close> is a keyword).
\<close>

record ora =
  text' :: "string option"

record custom =
  spinner :: "ora option"

text \<open>
  The configuration object is shared by every stage call and is mutable. Its
  \<^verbatim>\<open>custom\<close> field, the only one the source assigns, lives in the store; the
  \<^verbatim>\<open>build\<close> section, which the source only reads, is the value \<open>config\<close> below
  (\<^verbatim>\<open>config.build.sourceDirs\<close> is \<open>sourceDirs config\<close>, and so on).
\<close>

text \<open>
  A stage may be an \<^verbatim>\<open>async\<close> function or start asynchronous work: its call then
  returns a promise at once, and the rest of its work is left to the runtime. The store
  keeps such work as a list of tasks on the file system that have been started and have
  not run yet. Nothing in the two source files runs or awaits a task of this list.
\<close>

type_synonym task = "filesystem \<Rightarrow> filesystem"

record sys =
  files :: filesystem
  custom :: "custom option"
  pending :: "task list"

datatype 'v jsany = Undefined | Value 'v

record inert_file =
  path :: path
  basename :: string

text \<open>
  JavaScript objects used as dictionaries are association lists in enumeration order;
  their keys are distinct.
\<close>

record config_data =
  sourceDirs :: "(string \<times> string) list"
  outDirs :: "(string \<times> string) list"

text \<open>
  An entry of \<^verbatim>\<open>filePipeline\<close> is a function (\<open>Fn\<close>) or any other value (\<open>NotFn\<close>).
  A stage function receives the configuration, the file descriptor and the previous
  result, may change the store, and returns or throws. Types of HOL are well-founded, so
  the configuration a stage receives is the configuration without the stage functions.
\<close>

datatype 'v pipe =
    Fn "config_data \<Rightarrow> inert_file \<Rightarrow> 'v jsany \<Rightarrow> sys \<Rightarrow> (exn + 'v jsany) \<times> sys"
  | NotFn

record 'v folder_spec =
  folder :: string
  traverseLevel :: string
  filePipeline :: "'v pipe list"

record 'v config = config_data +
  folders :: "'v folder_spec list"

record build_options =
  logging :: "bool option"
  verbose :: "bool option"
  spinner :: "ora option"

text \<open>
  The collaborators the orchestrator imports from files that are not part of the two
  embedded ones, taken as parameters: the working directory, \<^verbatim>\<open>require\<close> of the
  configuration file, \<^verbatim>\<open>resolveSourceDir\<close>, \<^verbatim>\<open>resolveOutDir\<close>, \<^verbatim>\<open>traverse\<close> and
  \<^verbatim>\<open>getFileInfo\<close>. File discovery reads the file system and returns paths or fails.
\<close>

record 'v env =
  cwd :: path
  require :: "path \<Rightarrow> exn + 'v config"
  resolveSourceDir :: "'v config \<Rightarrow> string \<Rightarrow> path"
  resolveOutDir :: "'v config \<Rightarrow> string \<Rightarrow> path"
  traverse :: "path \<Rightarrow> bool \<Rightarrow> bool \<Rightarrow> filesystem \<Rightarrow> exn + path list"
  getFileInfo :: "path \<Rightarrow> inert_file"

subsection \<open>Calls to the collaborators\<close>

datatype message =
    NotAValidProject
  | CreateProjectHint
  | InitCommand path
  | MissingSourceDirs
  | OutputDirExists
  | CreatingOutputDir path
  | Building path
  | PipelineComponentNotFunction

text \<open>
  \<open>Traverse p a r fls\<close> is the call \<^verbatim>\<open>traverse(p, a, r)\<close> that returned \<open>fls\<close>;
  \<open>Invoke fi acc\<close> is the call of a stage with the file descriptor \<open>fi\<close> and the
  previous result \<open>acc\<close>. The logger decides by itself what it prints; a \<open>Log\<close> event is
  the call.
\<close>

datatype 'v event =
    SpinnerStop
  | SpinnerStart
  | LogError message
  | LogVerb message
  | LogWarn message
  | Traverse path bool bool "path list"
  | Invoke inert_file "'v jsany"

definition spinner_stop :: "build_options \<Rightarrow> 'v event list" where
  "spinner_stop options = (case build_options.spinner options of None \<Rightarrow> [] | Some sp \<Rightarrow> [SpinnerStop])"

definition spinner_start :: "build_options \<Rightarrow> 'v event list" where
  "spinner_start options = (case build_options.spinner options of None \<Rightarrow> [] | Some sp \<Rightarrow> [SpinnerStart])"

subsection \<open>The orchestrator\<close>

text \<open>
  Lines 88 to 97: the pipeline of one file, from the previous result \<open>prev_res\<close>. Line 96
  calls the stage without \<^verbatim>\<open>await\<close>: what the call returns, a promise included, is the
  next \<open>prev_res\<close> as it is, and the work a stage has left pending stays pending.
\<close>

fun run_pipeline ::
  "'v env \<Rightarrow> build_options \<Rightarrow> 'v config \<Rightarrow> path \<Rightarrow> 'v pipe list \<Rightarrow> 'v jsany \<Rightarrow> sys
     \<Rightarrow> (exn + 'v jsany) \<times> sys \<times> 'v event list" where
  "run_pipeline env options config file [] prev_res s = (Inr prev_res, s, [])"
| "run_pipeline env options config file (NotFn # pipes) prev_res s =
     (case run_pipeline env options config file pipes prev_res s of
        (r, s', evs) \<Rightarrow>
          (r, s', spinner_stop options @ [LogWarn PipelineComponentNotFunction]
                    @ spinner_start options @ evs))"
| "run_pipeline env options config file (Fn pipe # pipes) prev_res s =
     (case pipe (config_data.truncate config) (getFileInfo env file) prev_res s of
        (Inl e, s') \<Rightarrow> (Inl e, s', [Invoke (getFileInfo env file) prev_res])
      | (Inr res, s') \<Rightarrow>
          (case run_pipeline env options config file pipes res s' of
             (r, s'', evs) \<Rightarrow> (r, s'', Invoke (getFileInfo env file) prev_res # evs)))"

text \<open>Lines 85 to 98: every file starts its pipeline from \<^verbatim>\<open>undefined\<close>.\<close>

fun build_files ::
  "'v env \<Rightarrow> build_options \<Rightarrow> 'v config \<Rightarrow> 'v pipe list \<Rightarrow> path list \<Rightarrow> sys
     \<Rightarrow> (exn + unit) \<times> sys \<times> 'v event list" where
  "build_files env options config pipeline [] s = (Inr (), s, [])"
| "build_files env options config pipeline (file # rest) s =
     (case run_pipeline env options config file pipeline Undefined s of
        (Inl e, s', evs) \<Rightarrow> (Inl e, s', evs)
      | (Inr res, s', evs) \<Rightarrow>
          (case build_files env options config pipeline rest s' of
             (r, s'', evs') \<Rightarrow> (r, s'', evs @ evs')))"

text \<open>Line 83: the third argument of \<^verbatim>\<open>traverse\<close>.\<close>

definition recursive_flag :: "string \<Rightarrow> bool" where
  "recursive_flag level = (if level = ''rescursive'' then True else False)"

text \<open>Lines 77 to 99: the folders, in the order of the list.\<close>

fun build_folders ::
  "'v env \<Rightarrow> build_options \<Rightarrow> 'v config \<Rightarrow> 'v folder_spec list \<Rightarrow> sys
     \<Rightarrow> (exn + unit) \<times> sys \<times> 'v event list" where
  "build_folders env options config [] s = (Inr (), s, [])"
| "build_folders env options config (fld # rest) s =
     (let p = cwd env @ resolveSourceDir env config (folder fld);
          announce = spinner_stop options @ [LogVerb (Building p)] @ spinner_start options
      in case traverse env p False (recursive_flag (traverseLevel fld)) (files s) of
           Inl e \<Rightarrow> (Inl e, s, announce)
         | Inr fls \<Rightarrow>
             (case build_files env options config (filePipeline fld) fls s of
                (Inl e, s', evs) \<Rightarrow>
                  (Inl e, s', announce @ Traverse p False (recursive_flag (traverseLevel fld)) fls # evs)
              | (Inr u, s', evs) \<Rightarrow>
                  (case build_folders env options config rest s' of
                     (r, s'', evs') \<Rightarrow>
                       (r, s'', announce
                          @ Traverse p False (recursive_flag (traverseLevel fld)) fls # evs @ evs'))))"

text \<open>Lines 59 to 66: the root output directory.\<close>

definition create_out_dir ::
  "'v env \<Rightarrow> 'v config \<Rightarrow> sys \<Rightarrow> (exn + unit) \<times> sys \<times> 'v event list" where
  "create_out_dir env config s =
     (let out_dir = cwd env @ resolveOutDir env config '':output:''
      in if existsSync (files s) out_dir then (Inr (), s, [LogVerb OutputDirExists])
         else (case mkdir out_dir (files s) of
                 Inl e \<Rightarrow> (Inl e, s, [LogVerb (CreatingOutputDir out_dir)])
               | Inr fs' \<Rightarrow> (Inr (), s\<lparr>files := fs'\<rparr>, [LogVerb (CreatingOutputDir out_dir)])))"

text \<open>
  Lines 68 to 70: one recursive \<^verbatim>\<open>mkdir\<close> for each key of \<^verbatim>\<open>outDirs\<close>, on the value
  stored under the key.
\<close>

fun create_subdirs ::
  "'v env \<Rightarrow> 'v config \<Rightarrow> (string \<times> string) list \<Rightarrow> sys \<Rightarrow> (exn + unit) \<times> sys" where
  "create_subdirs env config [] s = (Inr (), s)"
| "create_subdirs env config ((outdir, v) # rest) s =
     (case mkdir_recursive (cwd env @ resolveOutDir env config v) (files s) of
        Inl e \<Rightarrow> (Inl e, s)
      | Inr fs' \<Rightarrow> create_subdirs env config rest (s\<lparr>files := fs'\<rparr>))"

text \<open>Lines 58 to 71: the setup phase.\<close>

definition setup_output ::
  "'v env \<Rightarrow> build_options \<Rightarrow> 'v config \<Rightarrow> sys \<Rightarrow> (exn + unit) \<times> sys \<times> 'v event list" where
  "setup_output env options config s =
     (case create_out_dir env config s of
        (Inl e, s', evs) \<Rightarrow> (Inl e, s', spinner_stop options @ evs)
      | (Inr u, s', evs) \<Rightarrow>
          (case create_subdirs env config (outDirs config) s' of
             (Inl e, s'') \<Rightarrow> (Inl e, s'', spinner_stop options @ evs)
           | (Inr u', s'') \<Rightarrow> (Inr (), s'', spinner_stop options @ evs @ spinner_start options)))"

text \<open>Lines 44 to 51: the test on the source directories.\<close>

definition source_dir_missing :: "'v env \<Rightarrow> 'v config \<Rightarrow> sys \<Rightarrow> bool" where
  "source_dir_missing env config s =
     list_ex (\<lambda>v. v = False)
       (map (\<lambda>dir. existsSync (files s) (cwd env @ resolveSourceDir env config dir))
          (map fst (sourceDirs config)))"

definition config_file :: "'v env \<Rightarrow> path" where
  "config_file env = cwd env @ [''inert.config.js'']"

text \<open>
  The function \<^verbatim>\<open>build\<close>, lines 21 to 102. Every \<^verbatim>\<open>await\<close> is a step of the
  sequence. The logger is built from \<^verbatim>\<open>options.logging\<close> and \<^verbatim>\<open>options.verbose\<close>;
  what it prints is its own affair, and the calls made to it are returned. Line 41 binds
  the build utilities to a global name for the configuration file to use; the binding is
  not part of the store. \<^verbatim>\<open>require\<close> returns the configuration or throws.
\<close>

definition build ::
  "'v env \<Rightarrow> build_options \<Rightarrow> sys \<Rightarrow> (exn + bool) \<times> sys \<times> 'v event list" where
  "build env options s =
     (if \<not> existsSync (files s) (config_file env) then
        (Inr False, s,
         spinner_stop options
           @ [LogError NotAValidProject, LogError CreateProjectHint, LogError (InitCommand (cwd env))]
           @ spinner_start options)
      else
        (case require env (config_file env) of
           Inl e \<Rightarrow> (Inl e, s, [])
         | Inr config \<Rightarrow>
             if source_dir_missing env config s then
               (Inr False, s,
                spinner_stop options @ [LogError MissingSourceDirs] @ spinner_start options)
             else
               (case setup_output env options config s of
                  (Inl e, s', evs) \<Rightarrow> (Inl e, s', evs)
                | (Inr u, s', evs) \<Rightarrow>
                    (case build_folders env options config (folders config) s' of
                       (Inl e, s'', evs') \<Rightarrow> (Inl e, s'', evs @ evs')
                     | (Inr u', s'', evs') \<Rightarrow> (Inr True, s'', evs @ evs')))))"

subsection \<open>The markdown stage\<close>

text \<open>
  The result of \<^verbatim>\<open>front-matter\<close>, as far as the stage touches it: the attributes, kept,
  and the body, replaced by its rendering.
\<close>

record 'a front_matter =
  attributes :: 'a
  body :: string

text \<open>
  The libraries of the stage, taken as parameters: \<^verbatim>\<open>fm\<close> parses or throws,
  \<^verbatim>\<open>render\<close> is \<^verbatim>\<open>compiler.render\<close> of the \<^verbatim>\<open>MarkdownIt\<close> built from the
  default options and the caller's, \<^verbatim>\<open>cyan\<close> is the colouring of \<^verbatim>\<open>chalk\<close>. None of them
  has the configuration in its hands.
\<close>

record ('a, 'o) md_env =
  fm :: "string \<Rightarrow> exn + 'a front_matter"
  render :: "'o option \<Rightarrow> string \<Rightarrow> exn + string"
  cyan :: "string \<Rightarrow> string"

text \<open>\<^verbatim>\<open>config.custom?.spinner?.text\<close>\<close>

definition spinner_text :: "sys \<Rightarrow> string option" where
  "spinner_text s =
     (case custom s of
        None \<Rightarrow> None
      | Some c \<Rightarrow> (case custom.spinner c of None \<Rightarrow> None | Some sp \<Rightarrow> text' sp))"

text \<open>\<^verbatim>\<open>if (config.custom?.spinner) config.custom.spinner.text = t\<close>\<close>

definition set_spinner_text :: "string option \<Rightarrow> sys \<Rightarrow> sys" where
  "set_spinner_text t s =
     (case custom s of
        None \<Rightarrow> s
      | Some c \<Rightarrow>
          (case custom.spinner c of
             None \<Rightarrow> s
           | Some sp \<Rightarrow> s\<lparr>custom := Some (c\<lparr>custom.spinner := Some (sp\<lparr>text' := t\<rparr>)\<rparr>)\<rparr>))"

text \<open>The stage that \<^verbatim>\<open>markdown(markdownItOptions)\<close> returns, lines 14 to 46.\<close>

definition markdown ::
  "('a, 'o) md_env \<Rightarrow> 'o option \<Rightarrow> config_data \<Rightarrow> inert_file \<Rightarrow> 'a front_matter jsany \<Rightarrow> sys
     \<Rightarrow> (exn + 'a front_matter jsany) \<times> sys" where
  "markdown me markdownItOptions config file previous s =
     (let spinner_text = spinner_text s;
          s1 = set_spinner_text (Some (''Building markdown: '' @ cyan me (basename file))) s
      in case readFileSync (path file) (files s1) of
           Inl e \<Rightarrow> (Inl e, s1)
         | Inr markdown \<Rightarrow>
             (case fm me markdown of
                Inl e \<Rightarrow> (Inl e, s1)
              | Inr content \<Rightarrow>
                  (case render me markdownItOptions (body content) of
                     Inl e \<Rightarrow> (Inl e, s1)
                   | Inr html \<Rightarrow>
                       (Inr (Value (content\<lparr>body := html\<rparr>)), set_spinner_text spinner_text s1))))"

subsection \<open>Notions of the specification\<close>

text \<open>
  The pipeline in the words of the specification: the accumulator starts absent; each
  stage, in order, is invoked with the configuration, the file descriptor and the current
  accumulator, and its return value replaces the accumulator. A stage that throws ends
  the run. The state of the fold is the accumulator (or the exception), the store and the
  invocations so far.
\<close>

definition pipe_step ::
  "config_data \<Rightarrow> inert_file \<Rightarrow> (exn + 'v jsany) \<times> sys \<times> 'v event list
     \<Rightarrow> (config_data \<Rightarrow> inert_file \<Rightarrow> 'v jsany \<Rightarrow> sys \<Rightarrow> (exn + 'v jsany) \<times> sys)
     \<Rightarrow> (exn + 'v jsany) \<times> sys \<times> 'v event list" where
  "pipe_step c fi st stage =
     (case st of
        (Inl e, s, evs) \<Rightarrow> (Inl e, s, evs)
      | (Inr acc, s, evs) \<Rightarrow>
          (case stage c fi acc s of (r, s') \<Rightarrow> (r, s', evs @ [Invoke fi acc])))"

definition threaded ::
  "config_data \<Rightarrow> inert_file
     \<Rightarrow> (config_data \<Rightarrow> inert_file \<Rightarrow> 'v jsany \<Rightarrow> sys \<Rightarrow> (exn + 'v jsany) \<times> sys) list
     \<Rightarrow> sys \<Rightarrow> (exn + 'v jsany) \<times> sys \<times> 'v event list" where
  "threaded c fi stages s = foldl (pipe_step c fi) (Inr Undefined, s, []) stages"






text \<open>Readings of the list of calls.\<close>

fun invoked_with :: "inert_file \<Rightarrow> 'v event \<Rightarrow> bool" where
  "invoked_with fi (Invoke fi' acc) = (fi' = fi)"
| "invoked_with fi e = False"

fun building_of :: "'v event \<Rightarrow> path list" where
  "building_of (LogVerb (Building p)) = [p]"
| "building_of e = []"

fun discovered_of :: "'v event \<Rightarrow> path list list" where
  "discovered_of (Traverse p a r fls) = [fls]"
| "discovered_of e = []"

fun invoked_of :: "'v event \<Rightarrow> inert_file list" where
  "invoked_of (Invoke fi acc) = [fi]"
| "invoked_of e = []"

text \<open>The folders announced, the file lists discovered, the files handed to a stage.\<close>

definition announced :: "'v event list \<Rightarrow> path list" where
  "announced evs = concat (map building_of evs)"

definition discovered :: "'v event list \<Rightarrow> path list list" where
  "discovered evs = concat (map discovered_of evs)"

definition invoked :: "'v event list \<Rightarrow> inert_file list" where
  "invoked evs = concat (map invoked_of evs)"


text \<open>
  A change of the file system that keeps what is there: a path that exists still exists,
  a directory is still a directory. A pipeline entry keeps the directories when every
  call of it changes the file system in this way only.
\<close>

definition preserves :: "filesystem \<Rightarrow> filesystem \<Rightarrow> bool" where
  "preserves fs fs' =
     (\<forall>q. (existsSync fs q \<longrightarrow> existsSync fs' q) \<and> (is_dir fs q \<longrightarrow> is_dir fs' q))"

definition keeps_files :: "'v pipe \<Rightarrow> bool" where
  "keeps_files p =
     (case p of
        NotFn \<Rightarrow> True
      | Fn f \<Rightarrow> (\<forall>c fi acc s. preserves (files s) (files (snd (f c fi acc s)))))"

text \<open>No regular file lies on a path: none of its leading segments, nor the path itself.\<close>

definition clear_of_files :: "filesystem \<Rightarrow> path \<Rightarrow> bool" where
  "clear_of_files fs p = (\<forall>n c. fs (take n p) \<noteq> Some (File c))"

subsection \<open>A sample project\<close>

text \<open>
  The scenario of the specification, with a second folder: \<^verbatim>\<open>posts\<close> holds
  \<^verbatim>\<open>a.md\<close> and \<^verbatim>\<open>b.md\<close>, \<^verbatim>\<open>assets\<close> holds a file and a nested directory. Stages
  return the base name, append to the previous result, write a marker file as well, or
  throw.
\<close>

definition demo_title ::
  "config_data \<Rightarrow> inert_file \<Rightarrow> string jsany \<Rightarrow> sys \<Rightarrow> (exn + string jsany) \<times> sys" where
  "demo_title c fi prev s = (Inr (Value (basename fi)), s)"

definition demo_suffix ::
  "config_data \<Rightarrow> inert_file \<Rightarrow> string jsany \<Rightarrow> sys \<Rightarrow> (exn + string jsany) \<times> sys" where
  "demo_suffix c fi prev s =
     (Inr (case prev of Undefined \<Rightarrow> Value ''none'' | Value t \<Rightarrow> Value (t @ ''.html'')), s)"

text \<open>\<^verbatim>\<open>fs.writeFileSync\<close>, for the stage that writes a marker.\<close>

definition writeFileSync :: "path \<Rightarrow> string \<Rightarrow> filesystem \<Rightarrow> exn + filesystem" where
  "writeFileSync p c fs =
     (if is_dir fs p then Inl (EISDIR p)
      else if \<not> is_dir fs (butlast p) then Inl (ENOENT p)
      else Inr (fs(p \<mapsto> File c)))"

definition demo_mark ::
  "config_data \<Rightarrow> inert_file \<Rightarrow> string jsany \<Rightarrow> sys \<Rightarrow> (exn + string jsany) \<times> sys" where
  "demo_mark c fi prev s =
     (case writeFileSync [''proj'', ''dist'', ''html'', basename fi] ''done'' (files s) of
        Inl e \<Rightarrow> (Inl e, s)
      | Inr fs' \<Rightarrow>
          (Inr (case prev of Undefined \<Rightarrow> Value ''none'' | Value t \<Rightarrow> Value (t @ ''.html'')),
           s\<lparr>files := fs'\<rparr>))"

text \<open>A stage that throws on \<^verbatim>\<open>a.md\<close> and returns the base name of any other file.\<close>

definition demo_fail ::
  "config_data \<Rightarrow> inert_file \<Rightarrow> string jsany \<Rightarrow> sys \<Rightarrow> (exn + string jsany) \<times> sys" where
  "demo_fail c fi prev s =
     (if basename fi = ''a.md'' then (Inl (Thrown ''boom''), s)
      else (Inr (Value (basename fi)), s))"

definition demo_config :: "string config" where
  "demo_config =
     \<lparr>sourceDirs = [(''posts'', ''content/posts''), (''assets'', ''assets'')],
      outDirs = [(''html'', ''dist/html'')],
      folders =
        [\<lparr>folder = ''posts'', traverseLevel = ''flat'',
          filePipeline = [Fn demo_title, NotFn, Fn demo_mark]\<rparr>,
         \<lparr>folder = ''assets'', traverseLevel = ''recursive'',
          filePipeline = [Fn demo_mark]\<rparr>]\<rparr>"

text \<open>
  The file discovery of the sample project answers from a fixed tree; with the
  recursive flag it also returns the nested file of \<^verbatim>\<open>assets\<close>.
\<close>

definition demo_env :: "string env" where
  "demo_env =
     \<lparr>cwd = [''proj''],
      require = (\<lambda>p. Inr demo_config),
      resolveSourceDir = (\<lambda>c d. if d = ''posts'' then [''content'', ''posts''] else [d]),
      resolveOutDir =
        (\<lambda>c v. if v = '':output:'' then [''dist'']
               else if v = ''dist/html'' then [''dist'', ''html''] else [v]),
      traverse =
        (\<lambda>p a r fs.
           if p = [''proj'', ''content'', ''posts'']
           then Inr [p @ [''a.md''], p @ [''b.md'']]
           else if p = [''proj'', ''assets'']
           then Inr ([p @ [''logo.png'']] @ (if r then [p @ [''img'', ''x.png'']] else []))
           else Inr []),
      getFileInfo = (\<lambda>p. \<lparr>path = p, basename = last p\<rparr>)\<rparr>"

text \<open>
  A stage that removes the directory \<^verbatim>\<open>dist/html\<close>, and the project with this stage
  as the pipeline of \<^verbatim>\<open>assets\<close>; no stage of this project writes there.
\<close>

definition demo_remove ::
  "config_data \<Rightarrow> inert_file \<Rightarrow> string jsany \<Rightarrow> sys \<Rightarrow> (exn + string jsany) \<times> sys" where
  "demo_remove c fi prev s =
     (Inr Undefined, s\<lparr>files := (files s)([''proj'', ''dist'', ''html''] := None)\<rparr>)"

definition demo_removing_config :: "string config" where
  "demo_removing_config =
     demo_config\<lparr>folders :=
       [\<lparr>folder = ''posts'', traverseLevel = ''flat'', filePipeline = [Fn demo_title]\<rparr>,
        \<lparr>folder = ''assets'', traverseLevel = ''recursive'',
         filePipeline = [Fn demo_remove]\<rparr>]\<rparr>"

definition demo_removing_env :: "string env" where
  "demo_removing_env = demo_env\<lparr>require := (\<lambda>p. Inr demo_removing_config)\<rparr>"





text \<open>The same project with a \<^verbatim>\<open>posts\<close> pipeline whose stage throws on \<^verbatim>\<open>a.md\<close>.\<close>

definition demo_failing_config :: "string config" where
  "demo_failing_config =
     demo_config\<lparr>folders :=
       [\<lparr>folder = ''posts'', traverseLevel = ''flat'', filePipeline = [Fn demo_fail]\<rparr>,
        \<lparr>folder = ''assets'', traverseLevel = ''recursive'',
         filePipeline = [Fn demo_mark]\<rparr>]\<rparr>"

definition demo_failing_env :: "string env" where
  "demo_failing_env = demo_env\<lparr>require := (\<lambda>p. Inr demo_failing_config)\<rparr>"

definition demo_files :: filesystem where
  "demo_files =
     [[''proj''] \<mapsto> Dir,
      [''proj'', ''inert.config.js''] \<mapsto> File ''module.exports = {}'',
      [''proj'', ''content''] \<mapsto> Dir,
      [''proj'', ''content'', ''posts''] \<mapsto> Dir,
      [''proj'', ''content'', ''posts'', ''a.md''] \<mapsto> File ''# a'',
      [''proj'', ''content'', ''posts'', ''b.md''] \<mapsto> File ''# b'',
      [''proj'', ''assets''] \<mapsto> Dir,
      [''proj'', ''assets'', ''logo.png''] \<mapsto> File ''png'',
      [''proj'', ''assets'', ''img''] \<mapsto> Dir,
      [''proj'', ''assets'', ''img'', ''x.png''] \<mapsto> File ''png'']"

definition demo_sys :: sys where
  "demo_sys =
     \<lparr>files = demo_files,
      custom = Some \<lparr>custom.spinner = Some \<lparr>text' = Some ''building''\<rparr>\<rparr>,
      pending = []\<rparr>"

text \<open>The project without its \<^verbatim>\<open>assets\<close> directory, and a directory that is no project.\<close>

definition demo_sys_no_assets :: sys where
  "demo_sys_no_assets = demo_sys\<lparr>files := (files demo_sys)([''proj'', ''assets''] := None)\<rparr>"

definition demo_sys_no_config :: sys where
  "demo_sys_no_config = demo_sys\<lparr>files := [[''proj''] \<mapsto> Dir]\<rparr>"


text \<open>The project once the setup phase has created \<^verbatim>\<open>dist\<close> and \<^verbatim>\<open>dist/html\<close>.\<close>

definition demo_sys_ready :: sys where
  "demo_sys_ready =
     demo_sys\<lparr>files := (files demo_sys)
       ([''proj'', ''dist''] \<mapsto> Dir, [''proj'', ''dist'', ''html''] \<mapsto> Dir)\<rparr>"

definition demo_options :: build_options where
  "demo_options =
     \<lparr>logging = None, verbose = None, spinner = Some \<lparr>text' = Some ''building''\<rparr>\<rparr>"

definition demo_a :: path where
  "demo_a = [''proj'', ''content'', ''posts'', ''a.md'']"

definition demo_b :: path where
  "demo_b = [''proj'', ''content'', ''posts'', ''b.md'']"

definition demo_md :: "(unit, unit) md_env" where
  "demo_md =
     \<lparr>fm = (\<lambda>src. Inr \<lparr>attributes = (), body = src\<rparr>),
      render = (\<lambda>opts src. Inr (''<p>'' @ src @ ''</p>'')),
      cyan = (\<lambda>str. str)\<rparr>"

section \<open>Properties\<close>

subsection \<open>The sample project, evaluated\<close>

lemma demo_env_simps:
  "cwd demo_env = [''proj'']"
  "require demo_env p = Inr demo_config"
  "resolveSourceDir demo_env c d = (if d = ''posts'' then [''content'', ''posts''] else [d])"
  "resolveOutDir demo_env c v =
     (if v = '':output:'' then [''dist'']
      else if v = ''dist/html'' then [''dist'', ''html''] else [v])"
  "traverse demo_env p a r fs =
     (if p = [''proj'', ''content'', ''posts'']
      then Inr [p @ [''a.md''], p @ [''b.md'']]
      else if p = [''proj'', ''assets'']
      then Inr ([p @ [''logo.png'']] @ (if r then [p @ [''img'', ''x.png'']] else []))
      else Inr [])"
  "getFileInfo demo_env p = \<lparr>path = p, basename = last p\<rparr>"
  by (simp_all add: demo_env_def)

lemma demo_config_simps:
  "sourceDirs demo_config = [(''posts'', ''content/posts''), (''assets'', ''assets'')]"
  "outDirs demo_config = [(''html'', ''dist/html'')]"
  "folders demo_config =
     [\<lparr>folder = ''posts'', traverseLevel = ''flat'',
       filePipeline = [Fn demo_title, NotFn, Fn demo_mark]\<rparr>,
      \<lparr>folder = ''assets'', traverseLevel = ''recursive'',
       filePipeline = [Fn demo_mark]\<rparr>]"
  by (simp_all add: demo_config_def)

lemmas demo_eval =
  demo_env_simps demo_config_simps demo_options_def demo_sys_def demo_files_def
  demo_title_def demo_suffix_def demo_mark_def demo_fail_def demo_a_def demo_b_def
  writeFileSync_def
  build_def config_file_def existsSync_def source_dir_missing_def
  setup_output_def create_out_dir_def mkdir_def is_dir_def mkdir_recursive_def
  spinner_stop_def spinner_start_def recursive_flag_def Let_def

subsection \<open>The pipeline of one file\<close>

lemma run_pipeline_append:
  "run_pipeline env options config file (ps @ qs) acc s =
     (case run_pipeline env options config file ps acc s of
        (Inl e, s', evs) \<Rightarrow> (Inl e, s', evs)
      | (Inr a, s', evs) \<Rightarrow>
          (case run_pipeline env options config file qs a s' of
             (r, s'', evs') \<Rightarrow> (r, s'', evs @ evs')))"
proof (induction ps arbitrary: acc s)
  case Nil
  show ?case by (simp split: prod.splits)
next
  case (Cons p ps)
  show ?case
  proof (cases p)
    case (Fn f)
    then show ?thesis using Cons.IH
      by (simp split: prod.splits sum.splits)
  next
    case NotFn
    then show ?thesis using Cons.IH
      by (simp split: prod.splits sum.splits)
  qed
qed

lemma pipe_step_simps:
  "pipe_step c fi (Inl e, s, evs) stage = (Inl e, s, evs)"
  "pipe_step c fi (Inr acc, s, evs) stage =
     (case stage c fi acc s of (r, s') \<Rightarrow> (r, s', evs @ [Invoke fi acc]))"
  by (simp_all add: pipe_step_def)

lemma foldl_pipe_step_failed:
  "foldl (pipe_step c fi) (Inl e, s, evs) stages = (Inl e, s, evs)"
  by (induction stages) (simp_all add: pipe_step_simps)

lemma foldl_pipe_step:
  "foldl (pipe_step (config_data.truncate config) (getFileInfo env file)) (Inr acc, s, evs0) stages =
     (case run_pipeline env options config file (map Fn stages) acc s of
        (r, s', evs) \<Rightarrow> (r, s', evs0 @ evs))"
proof (induction stages arbitrary: acc s evs0)
  case Nil
  show ?case by simp
next
  case (Cons st stages)
  show ?case
  proof (cases "st (config_data.truncate config) (getFileInfo env file) acc s")
    case (Pair r s1)
    show ?thesis
    proof (cases r)
      case (Inl e)
      with Pair show ?thesis by (simp add: pipe_step_simps foldl_pipe_step_failed)
    next
      case (Inr a)
      with Pair show ?thesis by (simp add: pipe_step_simps Cons.IH split: prod.splits)
    qed
  qed
qed

subsection \<open>Readings of the calls\<close>

lemma spinner_events [simp]:
  "find (invoked_with fi) (spinner_stop options @ evs) = find (invoked_with fi) evs"
  "find (invoked_with fi) (spinner_start options @ evs) = find (invoked_with fi) evs"
  "find (invoked_with fi) (spinner_stop options) = None"
  "find (invoked_with fi) (spinner_start options) = None"
  "announced (spinner_stop options) = []" "announced (spinner_start options) = []"
  "discovered (spinner_stop options) = []" "discovered (spinner_start options) = []"
  "invoked (spinner_stop options) = []" "invoked (spinner_start options) = []"
  by (simp_all add: spinner_stop_def spinner_start_def announced_def discovered_def invoked_def
      split: option.splits)

lemma projections_append [simp]:
  "announced (xs @ ys) = announced xs @ announced ys"
  "discovered (xs @ ys) = discovered xs @ discovered ys"
  "invoked (xs @ ys) = invoked xs @ invoked ys"
  by (simp_all add: announced_def discovered_def invoked_def)

lemma projections_Cons [simp]:
  "announced (e # xs) = building_of e @ announced xs"
  "discovered (e # xs) = discovered_of e @ discovered xs"
  "invoked (e # xs) = invoked_of e @ invoked xs"
  "announced [] = []" "discovered [] = []" "invoked [] = []"
  by (simp_all add: announced_def discovered_def invoked_def)

lemma find_append:
  "find P (xs @ ys) = (case find P xs of None \<Rightarrow> find P ys | Some x \<Rightarrow> Some x)"
  by (induction xs) simp_all

subsection \<open>The first invocation for a file\<close>

lemma run_pipeline_first_invocation:
  "run_pipeline env options config file pipes acc s = (r, s', evs) \<Longrightarrow>
   find (invoked_with fi) evs = Some e \<Longrightarrow>
   fi = getFileInfo env file \<and> e = Invoke fi acc"
proof (induction pipes arbitrary: acc s r s' evs)
  case Nil
  then show ?case by simp
next
  case (Cons p pipes)
  show ?case
  proof (cases p)
    case NotFn
    with Cons.prems obtain evs' where
      run: "run_pipeline env options config file pipes acc s = (r, s', evs')" and
      evs: "evs = spinner_stop options @ [LogWarn PipelineComponentNotFunction]
                    @ spinner_start options @ evs'"
      by (auto split: prod.splits)
    from Cons.prems(2) evs have "find (invoked_with fi) evs' = Some e" by simp
    with Cons.IH [OF run] show ?thesis .
  next
    case (Fn f)
    show ?thesis
    proof (cases "fi = getFileInfo env file")
      case True
      with Cons.prems Fn show ?thesis
        by (auto split: prod.splits sum.splits)
    next
      case False
      with Cons.prems Fn show ?thesis
        by (auto split: prod.splits sum.splits dest: Cons.IH)
    qed
  qed
qed

lemma build_files_first_invocation:
  "build_files env options config pipeline fls s = (r, s', evs) \<Longrightarrow>
   find (invoked_with fi) evs = Some e \<Longrightarrow> e = Invoke fi Undefined"
proof (induction fls arbitrary: s r s' evs)
  case Nil
  then show ?case by simp
next
  case (Cons fl rest)
  obtain r1 s1 evs1 where
    run: "run_pipeline env options config fl pipeline Undefined s = (r1, s1, evs1)"
    by (cases "run_pipeline env options config fl pipeline Undefined s") auto
  show ?case
  proof (cases r1)
    case (Inl ex)
    with Cons.prems run have "evs = evs1" by simp
    with Cons.prems(2) run_pipeline_first_invocation [OF run] show ?thesis by blast
  next
    case (Inr res)
    obtain r2 s2 evs2 where
      rest: "build_files env options config pipeline rest s1 = (r2, s2, evs2)"
      by (cases "build_files env options config pipeline rest s1") auto
    with Cons.prems run Inr have evs: "evs = evs1 @ evs2" by simp
    show ?thesis
    proof (cases "find (invoked_with fi) evs1")
      case None
      with Cons.prems(2) evs have "find (invoked_with fi) evs2 = Some e"
        by (simp add: find_append)
      with Cons.IH [OF rest] show ?thesis .
    next
      case (Some e')
      with Cons.prems(2) evs have "e' = e" by (simp add: find_append)
      with Some run_pipeline_first_invocation [OF run] show ?thesis by blast
    qed
  qed
qed

lemma build_folders_first_invocation:
  "build_folders env options config flds s = (r, s', evs) \<Longrightarrow>
   find (invoked_with fi) evs = Some e \<Longrightarrow> e = Invoke fi Undefined"
proof (induction flds arbitrary: s r s' evs)
  case Nil
  then show ?case by simp
next
  case (Cons fld rest)
  let ?p = "cwd env @ resolveSourceDir env config (folder fld)"
  show ?case
  proof (cases "traverse env ?p False (recursive_flag (traverseLevel fld)) (files s)")
    case (Inl ex)
    with Cons.prems show ?thesis by (auto simp: Let_def)
  next
    case (Inr fls)
    obtain r1 s1 evs1 where
      bf: "build_files env options config (filePipeline fld) fls s = (r1, s1, evs1)"
      by (cases "build_files env options config (filePipeline fld) fls s") auto
    show ?thesis
    proof (cases r1)
      case (Inl ex)
      with Cons.prems Inr bf have "find (invoked_with fi) evs1 = Some e"
        by (auto simp: Let_def)
      with build_files_first_invocation [OF bf] show ?thesis .
    next
      case r1: (Inr u)
      obtain r2 s2 evs2 where
        rest: "build_folders env options config rest s1 = (r2, s2, evs2)"
        by (cases "build_folders env options config rest s1") auto
      with Cons.prems Inr bf r1 have
        f: "find (invoked_with fi) (evs1 @ evs2) = Some e"
        by (auto simp: Let_def)
      show ?thesis
      proof (cases "find (invoked_with fi) evs1")
        case None
        with f have "find (invoked_with fi) evs2 = Some e" by (simp add: find_append)
        with Cons.IH [OF rest] show ?thesis .
      next
        case (Some e')
        with f have "e' = e" by (simp add: find_append)
        with Some build_files_first_invocation [OF bf] show ?thesis by blast
      qed
    qed
  qed
qed

lemma setup_output_no_invocation:
  "setup_output env options config s = (r, s', evs) \<Longrightarrow> find (invoked_with fi) evs = None"
  by (auto simp: setup_output_def create_out_dir_def Let_def
      split: sum.splits prod.splits if_splits)

subsection \<open>Full processing\<close>






lemma build_success:
  "build env options s = (Inr True, s', evs) \<Longrightarrow>
   \<exists>config s1 evs1 evs2.
     existsSync (files s) (config_file env)
     \<and> require env (config_file env) = Inr config
     \<and> \<not> source_dir_missing env config s
     \<and> setup_output env options config s = (Inr (), s1, evs1)
     \<and> build_folders env options config (folders config) s1 = (Inr (), s', evs2)
     \<and> evs = evs1 @ evs2"
  by (auto simp: build_def split: if_splits sum.splits prod.splits)

subsection \<open>Directories\<close>

lemma existsSync_mono: "fs \<subseteq>\<^sub>m fs' \<Longrightarrow> existsSync fs p \<Longrightarrow> existsSync fs' p"
  by (auto simp: existsSync_def map_le_def dom_def)

lemma is_dir_mono: "fs \<subseteq>\<^sub>m fs' \<Longrightarrow> is_dir fs p \<Longrightarrow> is_dir fs' p"
  by (auto simp: is_dir_def map_le_def dom_def)

lemma mkdir_from_mono: "mkdir_from pre segs fs = Inr fs' \<Longrightarrow> fs \<subseteq>\<^sub>m fs'"
proof (induction segs arbitrary: pre fs)
  case Nil
  then show ?case by simp
next
  case (Cons seg segs)
  show ?case
  proof (cases "fs (pre @ [seg])")
    case None
    with Cons.prems have "mkdir_from (pre @ [seg]) segs (fs(pre @ [seg] \<mapsto> Dir)) = Inr fs'"
      by simp
    from Cons.IH [OF this] have "fs(pre @ [seg] \<mapsto> Dir) \<subseteq>\<^sub>m fs'" .
    moreover from None have "fs \<subseteq>\<^sub>m fs(pre @ [seg] \<mapsto> Dir)"
      by (auto simp: map_le_def)
    ultimately show ?thesis by (rule map_le_trans [rotated])
  next
    case (Some nd)
    with Cons.prems Cons.IH show ?thesis
      by (cases nd) auto
  qed
qed

lemma mkdir_from_dirs:
  "mkdir_from pre segs fs = Inr fs' \<Longrightarrow> 0 < n \<Longrightarrow> n \<le> length segs \<Longrightarrow>
   fs' (pre @ take n segs) = Some Dir"
proof (induction segs arbitrary: pre fs n)
  case Nil
  then show ?case by simp
next
  case (Cons seg segs)
  let ?q = "pre @ [seg]"
  obtain fs1 where
    step: "mkdir_from ?q segs fs1 = Inr fs'" and here: "fs1 ?q = Some Dir"
  proof (cases "fs ?q")
    case None
    with Cons.prems(1) have "mkdir_from ?q segs (fs(?q \<mapsto> Dir)) = Inr fs'" by simp
    then show ?thesis using that [of "fs(?q \<mapsto> Dir)"] by simp
  next
    case (Some nd)
    with Cons.prems(1) show ?thesis using that [of fs]
      by (cases nd) auto
  qed
  from Cons.prems(2) obtain m where n: "n = Suc m" by (cases n) auto
  show ?case
  proof (cases m)
    case 0
    from mkdir_from_mono [OF step] here have "fs' ?q = Some Dir"
      by (auto simp: map_le_def dom_def)
    with n 0 show ?thesis by simp
  next
    case (Suc k)
    with n Cons.prems(3) have "0 < m" "m \<le> length segs" by auto
    from Cons.IH [OF step this] n show ?thesis by simp
  qed
qed

lemma mkdir_recursive_dirs:
  assumes "mkdir_recursive p fs = Inr fs'"
  shows "fs \<subseteq>\<^sub>m fs'" and "is_dir fs' (take n p)"
proof -
  from assms have m: "mkdir_from [] p fs = Inr fs'" by (simp add: mkdir_recursive_def)
  from mkdir_from_mono [OF m] show "fs \<subseteq>\<^sub>m fs'" .
  show "is_dir fs' (take n p)"
  proof (cases "n = 0")
    case True
    then show ?thesis by (simp add: is_dir_def)
  next
    case False
    then have "0 < min n (length p) \<or> p = []" by auto
    then show ?thesis
    proof
      assume "p = []"
      then show ?thesis by (simp add: is_dir_def)
    next
      assume pos: "0 < min n (length p)"
      have "take (min n (length p)) p = take n p" by (simp add: min_def)
      with mkdir_from_dirs [OF m pos] show ?thesis by (simp add: is_dir_def)
    qed
  qed
qed

lemma create_subdirs_dirs:
  "create_subdirs env config ods s = (Inr u, s') \<Longrightarrow>
   files s \<subseteq>\<^sub>m files s' \<and> custom s' = custom s
   \<and> (\<forall>(k, v) \<in> set ods. \<forall>n. is_dir (files s') (take n (cwd env @ resolveOutDir env config v)))"
proof (induction ods arbitrary: s)
  case Nil
  then show ?case by simp
next
  case (Cons kv rest)
  obtain k v where kv: "kv = (k, v)" by (cases kv)
  let ?p = "cwd env @ resolveOutDir env config v"
  from Cons.prems kv obtain fs1 where
    mk: "mkdir_recursive ?p (files s) = Inr fs1" and
    more: "create_subdirs env config rest (s\<lparr>files := fs1\<rparr>) = (Inr u, s')"
    by (auto split: sum.splits)
  from Cons.IH [OF more] have
    ih: "fs1 \<subseteq>\<^sub>m files s'" "custom s' = custom s"
        "\<forall>(k, v) \<in> set rest. \<forall>n. is_dir (files s') (take n (cwd env @ resolveOutDir env config v))"
    by auto
  from mkdir_recursive_dirs [OF mk] have
    one: "files s \<subseteq>\<^sub>m fs1" "\<And>n. is_dir fs1 (take n ?p)"
    by auto
  from one(1) ih(1) have "files s \<subseteq>\<^sub>m files s'" by (rule map_le_trans)
  moreover from one(2) ih(1) have "\<And>n. is_dir (files s') (take n ?p)"
    by (blast intro: is_dir_mono)
  ultimately show ?case using ih kv by auto
qed

lemma create_out_dir_exists:
  "create_out_dir env config s = (Inr u, s', evs) \<Longrightarrow>
   files s \<subseteq>\<^sub>m files s' \<and> custom s' = custom s
   \<and> existsSync (files s') (cwd env @ resolveOutDir env config '':output:'')"
  by (auto simp: create_out_dir_def Let_def mkdir_def existsSync_def map_le_def
      split: if_splits sum.splits)

lemma setup_output_dirs:
  assumes "setup_output env options config s = (Inr u, s', evs)"
  shows "files s \<subseteq>\<^sub>m files s'"
    and "existsSync (files s') (cwd env @ resolveOutDir env config '':output:'')"
    and "\<forall>(k, v) \<in> set (outDirs config).
           \<forall>n. is_dir (files s') (take n (cwd env @ resolveOutDir env config v))"
proof -
  from assms obtain u1 s1 evs1 u2 where
    root: "create_out_dir env config s = (Inr u1, s1, evs1)" and
    subs: "create_subdirs env config (outDirs config) s1 = (Inr u2, s')"
    by (auto simp: setup_output_def split: sum.splits prod.splits)
  note r = create_out_dir_exists [OF root] and c = create_subdirs_dirs [OF subs]
  from r c show "files s \<subseteq>\<^sub>m files s'" by (blast intro: map_le_trans)
  from r c show "existsSync (files s') (cwd env @ resolveOutDir env config '':output:'')"
    by (blast intro: existsSync_mono)
  from c show "\<forall>(k, v) \<in> set (outDirs config).
           \<forall>n. is_dir (files s') (take n (cwd env @ resolveOutDir env config v))"
    by blast
qed

lemma preserves_refl: "preserves fs fs"
  by (simp add: preserves_def)

lemma preserves_trans: "preserves fs fs' \<Longrightarrow> preserves fs' fs'' \<Longrightarrow> preserves fs fs''"
  by (simp add: preserves_def)

lemma map_le_preserves: "fs \<subseteq>\<^sub>m fs' \<Longrightarrow> preserves fs fs'"
  by (auto simp: preserves_def intro: existsSync_mono is_dir_mono)

lemma run_pipeline_keeps:
  "run_pipeline env options config file pipes acc s = (r, s', evs) \<Longrightarrow>
   \<forall>p \<in> set pipes. keeps_files p \<Longrightarrow> preserves (files s) (files s')"
proof (induction pipes arbitrary: acc s r s' evs)
  case Nil
  then show ?case by (simp add: preserves_refl)
next
  case (Cons p pipes)
  show ?case
  proof (cases p)
    case NotFn
    with Cons.prems Cons.IH show ?thesis by (auto split: prod.splits)
  next
    case (Fn f)
    let ?c = "f (config_data.truncate config) (getFileInfo env file) acc s"
    from Cons.prems(2) Fn have k: "preserves (files s) (files (snd ?c))"
      by (simp add: keeps_files_def)
    show ?thesis
    proof (cases "fst ?c")
      case (Inl ex)
      with Cons.prems(1) Fn have "s' = snd ?c" by (auto split: prod.splits sum.splits)
      with k show ?thesis by simp
    next
      case (Inr res)
      with Cons.prems(1) Fn obtain evs' where
        "run_pipeline env options config file pipes res (snd ?c) = (r, s', evs')"
        by (auto split: prod.splits sum.splits)
      from Cons.IH [OF this] Cons.prems(2) have "preserves (files (snd ?c)) (files s')" by simp
      with k show ?thesis by (rule preserves_trans)
    qed
  qed
qed

lemma build_files_keeps:
  "build_files env options config pipeline fls s = (r, s', evs) \<Longrightarrow>
   \<forall>p \<in> set pipeline. keeps_files p \<Longrightarrow> preserves (files s) (files s')"
proof (induction fls arbitrary: s r s' evs)
  case Nil
  then show ?case by (simp add: preserves_refl)
next
  case (Cons fl rest)
  obtain r1 s1 evs1 where
    run: "run_pipeline env options config fl pipeline Undefined s = (r1, s1, evs1)"
    by (cases "run_pipeline env options config fl pipeline Undefined s") auto
  note k = run_pipeline_keeps [OF run Cons.prems(2)]
  show ?case
  proof (cases r1)
    case (Inl ex)
    with Cons.prems(1) run have "s' = s1" by simp
    with k show ?thesis by simp
  next
    case (Inr res)
    with Cons.prems(1) run obtain evs2 where
      "build_files env options config pipeline rest s1 = (r, s', evs2)"
      by (auto split: prod.splits)
    from Cons.IH [OF this Cons.prems(2)] k show ?thesis by (blast intro: preserves_trans)
  qed
qed

lemma build_folders_keeps:
  "build_folders env options config flds s = (r, s', evs) \<Longrightarrow>
   \<forall>fld \<in> set flds. \<forall>p \<in> set (filePipeline fld). keeps_files p \<Longrightarrow>
   preserves (files s) (files s')"
proof (induction flds arbitrary: s r s' evs)
  case Nil
  then show ?case by (simp add: preserves_refl)
next
  case (Cons fld rest)
  let ?p = "cwd env @ resolveSourceDir env config (folder fld)"
  let ?flag = "recursive_flag (traverseLevel fld)"
  show ?case
  proof (cases "traverse env ?p False ?flag (files s)")
    case (Inl ex)
    with Cons.prems(1) show ?thesis by (auto simp: Let_def preserves_refl)
  next
    case (Inr fls)
    obtain r1 s1 evs1 where
      bf: "build_files env options config (filePipeline fld) fls s = (r1, s1, evs1)"
      by (cases "build_files env options config (filePipeline fld) fls s") auto
    from Cons.prems(2) have "\<forall>p \<in> set (filePipeline fld). keeps_files p" by simp
    note k = build_files_keeps [OF bf this]
    show ?thesis
    proof (cases r1)
      case (Inl ex)
      with Cons.prems(1) Inr bf have "s' = s1" by (auto simp: Let_def)
      with k show ?thesis by simp
    next
      case r1: (Inr u)
      with Cons.prems(1) Inr bf obtain evs2 where
        more: "build_folders env options config rest s1 = (r, s', evs2)"
        by (auto simp: Let_def split: prod.splits)
      from Cons.prems(2) have "\<forall>fld \<in> set rest. \<forall>p \<in> set (filePipeline fld). keeps_files p"
        by simp
      from Cons.IH [OF more this] k show ?thesis by (blast intro: preserves_trans)
    qed
  qed
qed

subsection \<open>Runs of the sample project\<close>

lemma demo_build_events:
  "fst (build demo_env demo_options demo_sys) = Inr True"
  "snd (snd (build demo_env demo_options demo_sys)) =
     [SpinnerStop, LogVerb (CreatingOutputDir [''proj'', ''dist'']), SpinnerStart,
      SpinnerStop, LogVerb (Building [''proj'', ''content'', ''posts'']), SpinnerStart,
      Traverse [''proj'', ''content'', ''posts''] False False [demo_a, demo_b],
      Invoke (getFileInfo demo_env demo_a) Undefined,
      SpinnerStop, LogWarn PipelineComponentNotFunction, SpinnerStart,
      Invoke (getFileInfo demo_env demo_a) (Value ''a.md''),
      Invoke (getFileInfo demo_env demo_b) Undefined,
      SpinnerStop, LogWarn PipelineComponentNotFunction, SpinnerStart,
      Invoke (getFileInfo demo_env demo_b) (Value ''b.md''),
      SpinnerStop, LogVerb (Building [''proj'', ''assets'']), SpinnerStart,
      Traverse [''proj'', ''assets''] False False [[''proj'', ''assets'', ''logo.png'']],
      Invoke (getFileInfo demo_env [''proj'', ''assets'', ''logo.png'']) Undefined]"
  by (simp_all add: demo_eval)

lemma demo_build:
  "build demo_env demo_options demo_sys =
     (Inr True, fst (snd (build demo_env demo_options demo_sys)),
      snd (snd (build demo_env demo_options demo_sys)))"
  using demo_build_events(1) by (simp add: prod_eq_iff)

lemma demo_keeps:
  "\<forall>fld \<in> set (folders demo_config). \<forall>p \<in> set (filePipeline fld). keeps_files p"
  by (auto simp: demo_config_simps keeps_files_def preserves_def demo_title_def demo_mark_def
      writeFileSync_def existsSync_def is_dir_def split: sum.splits)

lemma demo_failing_env_simps:
  "cwd demo_failing_env = [''proj'']"
  "require demo_failing_env p = Inr demo_failing_config"
  "resolveSourceDir demo_failing_env c d = resolveSourceDir demo_env c d"
  "resolveOutDir demo_failing_env c v = resolveOutDir demo_env c v"
  "traverse demo_failing_env p a r fs = traverse demo_env p a r fs"
  "getFileInfo demo_failing_env p = getFileInfo demo_env p"
  "sourceDirs demo_failing_config = sourceDirs demo_config"
  "outDirs demo_failing_config = outDirs demo_config"
  "folders demo_failing_config =
     [\<lparr>folder = ''posts'', traverseLevel = ''flat'', filePipeline = [Fn demo_fail]\<rparr>,
      \<lparr>folder = ''assets'', traverseLevel = ''recursive'', filePipeline = [Fn demo_mark]\<rparr>]"
  by (simp_all add: demo_failing_env_def demo_failing_config_def demo_env_simps)



lemma demo_removing_env_simps:
  "cwd demo_removing_env = [''proj'']"
  "require demo_removing_env p = Inr demo_removing_config"
  "resolveSourceDir demo_removing_env c d = resolveSourceDir demo_env c d"
  "resolveOutDir demo_removing_env c v = resolveOutDir demo_env c v"
  "traverse demo_removing_env p a r fs = traverse demo_env p a r fs"
  "getFileInfo demo_removing_env p = getFileInfo demo_env p"
  "sourceDirs demo_removing_config = sourceDirs demo_config"
  "outDirs demo_removing_config = outDirs demo_config"
  "folders demo_removing_config =
     [\<lparr>folder = ''posts'', traverseLevel = ''flat'', filePipeline = [Fn demo_title]\<rparr>,
      \<lparr>folder = ''assets'', traverseLevel = ''recursive'', filePipeline = [Fn demo_remove]\<rparr>]"
  by (simp_all add: demo_removing_env_def demo_removing_config_def demo_env_simps)


lemma take_three:
  "take n [a, b, c] = [] \<or> take n [a, b, c] = [a] \<or> take n [a, b, c] = [a, b]
   \<or> take n [a, b, c] = [a, b, c]"
proof -
  consider "n = 0" | "n = Suc 0" | "n = Suc (Suc 0)" | "3 \<le> n" by linarith
  then show ?thesis by cases simp_all
qed

lemma demo_out_dir_clear:
  "clear_of_files (files demo_sys) [''proj'', ''dist'', ''html'']"
  unfolding clear_of_files_def
proof (intro allI)
  fix n c
  from take_three [of n "''proj''" "''dist''" "''html''"]
  show "files demo_sys (take n [''proj'', ''dist'', ''html'']) \<noteq> Some (File c)"
    by (auto simp: demo_sys_def demo_files_def)
qed

lemma demo_out_dir_ready:
  "is_dir (files demo_sys_ready) (take n [''proj'', ''dist'', ''html''])"
  using take_three [of n "''proj''" "''dist''" "''html''"]
  by (auto simp: demo_sys_ready_def demo_sys_def demo_files_def is_dir_def)

subsection \<open>The files of one folder\<close>

lemma build_files_append:
  "build_files env options config pipeline (xs @ ys) s =
     (case build_files env options config pipeline xs s of
        (Inl e, s', evs) \<Rightarrow> (Inl e, s', evs)
      | (Inr u, s', evs) \<Rightarrow>
          (case build_files env options config pipeline ys s' of
             (r, s'', evs') \<Rightarrow> (r, s'', evs @ evs')))"
proof (induction xs arbitrary: s)
  case Nil
  show ?case by (simp split: prod.splits)
next
  case (Cons x xs)
  show ?case
    by (simp add: Cons.IH split: prod.splits sum.splits)
qed

subsection \<open>The folders as left folds\<close>











subsection \<open>The setup phase on what is already there\<close>

lemma mkdir_from_no_new_files:
  "mkdir_from pre segs fs = Inr fs' \<Longrightarrow> fs' q = Some (File c) \<Longrightarrow> fs q = Some (File c)"
proof (induction segs arbitrary: pre fs)
  case Nil
  then show ?case by simp
next
  case (Cons seg segs)
  show ?case
  proof (cases "fs (pre @ [seg])")
    case None
    with Cons.prems(1) have "mkdir_from (pre @ [seg]) segs (fs(pre @ [seg] \<mapsto> Dir)) = Inr fs'"
      by simp
    from Cons.IH [OF this Cons.prems(2)] show ?thesis
      by (simp split: if_splits)
  next
    case (Some nd)
    with Cons.prems Cons.IH show ?thesis
      by (cases nd) auto
  qed
qed

lemma mkdir_from_succeeds:
  "(\<And>n c. 0 < n \<Longrightarrow> n \<le> length segs \<Longrightarrow> fs (pre @ take n segs) \<noteq> Some (File c)) \<Longrightarrow>
   \<exists>fs'. mkdir_from pre segs fs = Inr fs'"
proof (induction segs arbitrary: pre fs)
  case Nil
  show ?case by simp
next
  case (Cons seg segs)
  let ?q = "pre @ [seg]"
  from Cons.prems [of 1] have here: "\<And>c. fs ?q \<noteq> Some (File c)" by simp
  have later: "fs ((pre @ [seg]) @ take n segs) \<noteq> Some (File c)"
    if "0 < n" "n \<le> length segs" for n c
    using Cons.prems [of "Suc n" c] that by simp
  show ?case
  proof (cases "fs ?q")
    case None
    have "\<exists>fs'. mkdir_from ?q segs (fs(?q \<mapsto> Dir)) = Inr fs'"
    proof (rule Cons.IH)
      fix n c
      assume "0 < n" "n \<le> length segs"
      with later [of n c] show "(fs(?q \<mapsto> Dir)) (?q @ take n segs) \<noteq> Some (File c)"
        by simp
    qed
    with None show ?thesis by simp
  next
    case (Some nd)
    with here obtain dir: "fs ?q = Some Dir" by (cases nd) auto
    have "\<exists>fs'. mkdir_from ?q segs fs = Inr fs'"
      by (rule Cons.IH) (use later in blast)
    with dir show ?thesis by simp
  qed
qed

lemma mkdir_recursive_succeeds:
  "clear_of_files fs p \<Longrightarrow> \<exists>fs'. mkdir_recursive p fs = Inr fs'"
  unfolding mkdir_recursive_def
  by (rule mkdir_from_succeeds) (simp add: clear_of_files_def)

lemma mkdir_recursive_keeps_clear:
  "mkdir_recursive p fs = Inr fs' \<Longrightarrow> clear_of_files fs q \<Longrightarrow> clear_of_files fs' q"
  unfolding mkdir_recursive_def clear_of_files_def
  by (blast dest: mkdir_from_no_new_files)

lemma create_subdirs_succeeds:
  "\<forall>(k, v) \<in> set ods. clear_of_files (files s) (cwd env @ resolveOutDir env config v) \<Longrightarrow>
   \<exists>s'. create_subdirs env config ods s = (Inr (), s')"
proof (induction ods arbitrary: s)
  case Nil
  show ?case by simp
next
  case (Cons kv rest)
  obtain k v where kv: "kv = (k, v)" by (cases kv)
  let ?p = "cwd env @ resolveOutDir env config v"
  from Cons.prems kv have "clear_of_files (files s) ?p" by simp
  from mkdir_recursive_succeeds [OF this] obtain fs1 where
    mk: "mkdir_recursive ?p (files s) = Inr fs1" ..
  have "\<forall>(k, v) \<in> set rest.
          clear_of_files (files (s\<lparr>files := fs1\<rparr>)) (cwd env @ resolveOutDir env config v)"
    using Cons.prems mkdir_recursive_keeps_clear [OF mk] by auto
  from Cons.IH [OF this] mk kv show ?case by simp
qed

lemma mkdir_from_existing:
  "(\<And>n. 0 < n \<Longrightarrow> n \<le> length segs \<Longrightarrow> fs (pre @ take n segs) = Some Dir) \<Longrightarrow>
   mkdir_from pre segs fs = Inr fs"
proof (induction segs arbitrary: pre)
  case Nil
  show ?case by simp
next
  case (Cons seg segs)
  from Cons.prems [of 1] have here: "fs (pre @ [seg]) = Some Dir" by simp
  have "mkdir_from (pre @ [seg]) segs fs = Inr fs"
  proof (rule Cons.IH)
    fix n
    assume "0 < n" "n \<le> length segs"
    with Cons.prems [of "Suc n"] show "fs ((pre @ [seg]) @ take n segs) = Some Dir" by simp
  qed
  with here show ?case by simp
qed

lemma mkdir_recursive_existing:
  assumes "\<forall>n. is_dir fs (take n p)"
  shows "mkdir_recursive p fs = Inr fs"
  unfolding mkdir_recursive_def
proof (rule mkdir_from_existing)
  fix n
  assume "0 < n" "n \<le> length p"
  then have "take n p \<noteq> []" by auto
  with assms [rule_format, of n] show "fs ([] @ take n p) = Some Dir"
    by (simp add: is_dir_def)
qed

lemma create_subdirs_existing:
  "\<forall>(k, v) \<in> set ods. \<forall>n. is_dir (files s) (take n (cwd env @ resolveOutDir env config v)) \<Longrightarrow>
   create_subdirs env config ods s = (Inr (), s)"
proof (induction ods)
  case Nil
  show ?case by simp
next
  case (Cons kv rest)
  obtain k v where kv: "kv = (k, v)" by (cases kv)
  from Cons.prems kv have
    "\<forall>n. is_dir (files s) (take n (cwd env @ resolveOutDir env config v))" by simp
  from mkdir_recursive_existing [OF this] Cons kv show ?case by simp
qed

lemma setup_output_existing:
  assumes "existsSync (files s) (cwd env @ resolveOutDir env config '':output:'')"
    and "\<forall>(k, v) \<in> set (outDirs config).
           \<forall>n. is_dir (files s) (take n (cwd env @ resolveOutDir env config v))"
  shows "setup_output env options config s =
           (Inr (), s, spinner_stop options @ [LogVerb OutputDirExists] @ spinner_start options)"
  using assms create_subdirs_existing [OF assms(2)]
  by (simp add: setup_output_def create_out_dir_def)

lemma create_out_dir_succeeds:
  assumes "existsSync (files s) (cwd env @ resolveOutDir env config '':output:'')
           \<or> is_dir (files s) (butlast (cwd env @ resolveOutDir env config '':output:''))"
  shows "\<exists>s1 evs1. create_out_dir env config s = (Inr (), s1, evs1)
           \<and> (\<forall>q c. files s1 q = Some (File c) \<longrightarrow> files s q = Some (File c))"
  using assms
  by (auto simp: create_out_dir_def Let_def mkdir_def existsSync_def is_dir_def)

lemma setup_output_succeeds:
  assumes "existsSync (files s) (cwd env @ resolveOutDir env config '':output:'')
           \<or> is_dir (files s) (butlast (cwd env @ resolveOutDir env config '':output:''))"
    and "\<forall>(k, v) \<in> set (outDirs config).
           clear_of_files (files s) (cwd env @ resolveOutDir env config v)"
  shows "\<exists>s1 evs1. setup_output env options config s = (Inr (), s1, evs1)"
proof -
  from create_out_dir_succeeds [OF assms(1)] obtain s1 evs1 where
    root: "create_out_dir env config s = (Inr (), s1, evs1)" and
    nf: "\<forall>q c. files s1 q = Some (File c) \<longrightarrow> files s q = Some (File c)"
    by blast
  from assms(2) nf have
    "\<forall>(k, v) \<in> set (outDirs config).
       clear_of_files (files s1) (cwd env @ resolveOutDir env config v)"
    unfolding clear_of_files_def by blast
  from create_subdirs_succeeds [OF this] obtain s2 where
    "create_subdirs env config (outDirs config) s1 = (Inr (), s2)" ..
  with root show ?thesis by (simp add: setup_output_def)
qed

lemma create_out_dir_is_dir:
  "create_out_dir env config s = (Inr u, s', evs) \<Longrightarrow>
   \<forall>c. files s (cwd env @ resolveOutDir env config '':output:'') \<noteq> Some (File c) \<Longrightarrow>
   is_dir (files s') (cwd env @ resolveOutDir env config '':output:'')"
proof -
  assume c: "create_out_dir env config s = (Inr u, s', evs)"
    and nf: "\<forall>c. files s (cwd env @ resolveOutDir env config '':output:'') \<noteq> Some (File c)"
  let ?r = "cwd env @ resolveOutDir env config '':output:''"
  show ?thesis
  proof (cases "existsSync (files s) ?r")
    case True
    with c have "s' = s" by (simp add: create_out_dir_def)
    moreover from True nf have "is_dir (files s) ?r"
      by (cases "files s ?r") (auto simp: existsSync_def is_dir_def intro: node.exhaust)
    ultimately show ?thesis by simp
  next
    case False
    with c show ?thesis
      by (auto simp: create_out_dir_def Let_def mkdir_def is_dir_def split: if_splits)
  qed
qed

lemma setup_output_root_is_dir:
  assumes "setup_output env options config s = (Inr u, s', evs)"
    and "\<forall>c. files s (cwd env @ resolveOutDir env config '':output:'') \<noteq> Some (File c)"
  shows "is_dir (files s') (cwd env @ resolveOutDir env config '':output:'')"
proof -
  from assms(1) obtain u1 s1 evs1 u2 where
    root: "create_out_dir env config s = (Inr u1, s1, evs1)" and
    subs: "create_subdirs env config (outDirs config) s1 = (Inr u2, s')"
    by (auto simp: setup_output_def split: sum.splits prod.splits)
  from create_out_dir_is_dir [OF root assms(2)] create_subdirs_dirs [OF subs]
  show ?thesis by (blast intro: is_dir_mono)
qed

subsection \<open>The guard on the source directories\<close>

text \<open>
  What the guard tests is the path the resolver gives for a key: when one of these is
  not on disk, the orchestrator returns \<^verbatim>\<open>false\<close> and leaves the store as it found it.
\<close>

lemma source_dir_guard:
  assumes "require env (config_file env) = Inr config"
    and "\<exists>dir \<in> set (map fst (sourceDirs config)).
           \<not> existsSync (files s) (cwd env @ resolveSourceDir env config dir)"
  shows "build env options s =
           (Inr False, s,
            if existsSync (files s) (config_file env)
            then spinner_stop options @ [LogError MissingSourceDirs] @ spinner_start options
            else spinner_stop options
                   @ [LogError NotAValidProject, LogError CreateProjectHint,
                      LogError (InitCommand (cwd env))]
                   @ spinner_start options)"
proof -
  from assms(2) have "source_dir_missing env config s"
    by (auto simp: source_dir_missing_def list_ex_iff)
  with assms(1) show ?thesis by (simp add: build_def)
qed

section \<open>The claims\<close>

text \<open>
  C2. For every file and every pipeline whose entries are all functions, the run of the
  pipeline is the threading of the specification: the accumulator starts as
  \<^verbatim>\<open>undefined\<close>, each stage in declared order is called with the configuration, the
  file descriptor and the current accumulator, and its return value becomes the
  accumulator. For three stages that return, the second receives what the first returned,
  the third what the second returned, and the result is what the third returned.
\<close>

theorem pipeline_threads_accumulator:
  "run_pipeline env options config file (map Fn stages) Undefined s =
     threaded (config_data.truncate config) (getFileInfo env file) stages s
   \<and> (s1 (config_data.truncate config) (getFileInfo env file) Undefined s = (Inr r1, u1) \<longrightarrow>
      s2 (config_data.truncate config) (getFileInfo env file) r1 u1 = (Inr r2, u2) \<longrightarrow>
      s3 (config_data.truncate config) (getFileInfo env file) r2 u2 = (Inr r3, u3) \<longrightarrow>
      run_pipeline env options config file [Fn s1, Fn s2, Fn s3] Undefined s =
        (Inr r3, u3, [Invoke (getFileInfo env file) Undefined, Invoke (getFileInfo env file) r1,
                      Invoke (getFileInfo env file) r2]))"
  by (simp add: threaded_def foldl_pipe_step [where options = options])

theorem pipeline_threads_accumulator_witness:
  "demo_title (config_data.truncate demo_config) (getFileInfo demo_env demo_a) Undefined demo_sys
     = (Inr (Value ''a.md''), demo_sys)
   \<and> demo_suffix (config_data.truncate demo_config) (getFileInfo demo_env demo_a)
         (Value ''a.md'') demo_sys
     = (Inr (Value ''a.md.html''), demo_sys)
   \<and> demo_suffix (config_data.truncate demo_config) (getFileInfo demo_env demo_a)
         (Value ''a.md.html'') demo_sys
     = (Inr (Value ''a.md.html.html''), demo_sys)
   \<and> run_pipeline demo_env demo_options demo_config demo_a
        [Fn demo_title, Fn demo_suffix, Fn demo_suffix] Undefined demo_sys =
        (Inr (Value ''a.md.html.html''), demo_sys,
         [Invoke (getFileInfo demo_env demo_a) Undefined,
          Invoke (getFileInfo demo_env demo_a) (Value ''a.md''),
          Invoke (getFileInfo demo_env demo_a) (Value ''a.md.html'')])"
  using pipeline_threads_accumulator
    [where env = demo_env and options = demo_options and config = demo_config
       and ?file = demo_a and s = demo_sys and stages = "[demo_title, demo_suffix, demo_suffix]"
       and ?s1.0 = demo_title and ?r1.0 = "Value ''a.md''" and ?u1.0 = demo_sys
       and ?s2.0 = demo_suffix and ?r2.0 = "Value ''a.md.html''" and ?u2.0 = demo_sys
       and ?s3.0 = demo_suffix and ?r3.0 = "Value ''a.md.html.html''" and ?u3.0 = demo_sys]
  by (simp add: demo_title_def demo_suffix_def demo_env_simps demo_a_def)

text \<open>
  C3. A pipeline entry that is not a function is skipped with a warning: the stages
  before it hand their result unchanged to the stages after it, which still run. With
  the second of three entries not a function, the first and the third are called and the
  third receives what the first returned.
\<close>

theorem non_callable_entry_skipped:
  "(run_pipeline env options config file pre prev_res s = (Inr acc, s1, evs1) \<longrightarrow>
      run_pipeline env options config file (pre @ NotFn # post) prev_res s =
        (case run_pipeline env options config file post acc s1 of
           (r, s2, evs2) \<Rightarrow>
             (r, s2, evs1 @ spinner_stop options @ [LogWarn PipelineComponentNotFunction]
                       @ spinner_start options @ evs2)))
   \<and> (p1 (config_data.truncate config) (getFileInfo env file) Undefined s = (Inr r1, u1) \<longrightarrow>
      p3 (config_data.truncate config) (getFileInfo env file) r1 u1 = (Inr r3, u3) \<longrightarrow>
      run_pipeline env options config file [Fn p1, NotFn, Fn p3] Undefined s =
        (Inr r3, u3, [Invoke (getFileInfo env file) Undefined] @ spinner_stop options
                       @ [LogWarn PipelineComponentNotFunction] @ spinner_start options
                       @ [Invoke (getFileInfo env file) r1]))"
  by (simp add: run_pipeline_append split: prod.splits)

theorem non_callable_entry_skipped_witness:
  "run_pipeline demo_env demo_options demo_config demo_a [Fn demo_title] Undefined demo_sys
     = (Inr (Value ''a.md''), demo_sys, [Invoke (getFileInfo demo_env demo_a) Undefined])
   \<and> run_pipeline demo_env demo_options demo_config demo_a
        [Fn demo_title, NotFn, Fn demo_suffix] Undefined demo_sys =
        (Inr (Value ''a.md.html''), demo_sys,
         [Invoke (getFileInfo demo_env demo_a) Undefined, SpinnerStop,
          LogWarn PipelineComponentNotFunction, SpinnerStart,
          Invoke (getFileInfo demo_env demo_a) (Value ''a.md'')])"
  using non_callable_entry_skipped
    [where env = demo_env and options = demo_options and config = demo_config
       and ?file = demo_a and s = demo_sys and pre = "[Fn demo_title]" and post = "[Fn demo_suffix]"
       and prev_res = Undefined and acc = "Value ''a.md''" and ?s1.0 = demo_sys
       and ?evs1.0 = "[Invoke (getFileInfo demo_env demo_a) Undefined]"
       and ?p1.0 = demo_title and ?r1.0 = "Value ''a.md''" and ?u1.0 = demo_sys
       and ?p3.0 = demo_suffix and ?r3.0 = "Value ''a.md.html''" and ?u3.0 = demo_sys]
  by (simp add: demo_title_def demo_suffix_def demo_options_def spinner_stop_def spinner_start_def
      demo_env_simps demo_a_def)

text \<open>
  C10. When the markdown stage returns normally, \<^verbatim>\<open>config.custom.spinner.text\<close> reads
  as it did before the call: the stage writes its progress label there and puts the saved
  value back before it returns. The store as a whole is the one it was called with.
\<close>

theorem markdown_restores_spinner_text:
  "markdown me markdownItOptions config file previous s = (Inr result, s') \<Longrightarrow>
   spinner_text s' = spinner_text s \<and> s' = s"
  by (auto simp: markdown_def Let_def spinner_text_def set_spinner_text_def
      split: sum.splits option.splits)

theorem markdown_restores_spinner_text_witness:
  "markdown demo_md None (config_data.truncate demo_config) (getFileInfo demo_env demo_a)
     Undefined demo_sys
     = (Inr (Value \<lparr>attributes = (), body = ''<p># a</p>''\<rparr>), demo_sys)
   \<and> spinner_text demo_sys = Some ''building''
   \<and> spinner_text (set_spinner_text (Some ''Building markdown: a.md'') demo_sys)
       = Some ''Building markdown: a.md''"
proof -
  have run: "markdown demo_md None (config_data.truncate demo_config)
               (getFileInfo demo_env demo_a) Undefined demo_sys
             = (Inr (Value \<lparr>attributes = (), body = ''<p># a</p>''\<rparr>), demo_sys)"
    by (simp add: markdown_def Let_def set_spinner_text_def spinner_text_def readFileSync_def
        demo_md_def demo_sys_def demo_files_def demo_a_def demo_env_simps)
  from markdown_restores_spinner_text [OF run] run show ?thesis
    by (simp add: spinner_text_def set_spinner_text_def demo_sys_def)
qed

text \<open>
  C9. The accumulator belongs to one file's pipeline: in every run of the orchestrator,
  whatever its outcome, the first stage call made for a file receives \<^verbatim>\<open>undefined\<close>,
  never a value produced for another file.
\<close>

theorem first_stage_receives_undefined:
  "build env options s = (r, s', evs) \<Longrightarrow>
   find (invoked_with fi) evs = Some e \<Longrightarrow> e = Invoke fi Undefined"
proof -
  assume b: "build env options s = (r, s', evs)" and f: "find (invoked_with fi) evs = Some e"
  show ?thesis
  proof (cases "existsSync (files s) (config_file env)")
    case False
    with b f show ?thesis by (auto simp: build_def)
  next
    case True
    show ?thesis
    proof (cases "require env (config_file env)")
      case (Inl ex)
      with True b f show ?thesis by (auto simp: build_def)
    next
      case (Inr config)
      show ?thesis
      proof (cases "source_dir_missing env config s")
        case missing: True
        with True Inr b f show ?thesis by (auto simp: build_def)
      next
        case present: False
        obtain r1 s1 evs1 where
          su: "setup_output env options config s = (r1, s1, evs1)"
          by (cases "setup_output env options config s") auto
        note none = setup_output_no_invocation [OF su, of fi]
        show ?thesis
        proof (cases r1)
          case (Inl ex)
          with True Inr present su b have "evs = evs1" by (simp add: build_def)
          with none f show ?thesis by simp
        next
          case r1: (Inr u)
          obtain r2 s2 evs2 where
            flds: "build_folders env options config (folders config) s1 = (r2, s2, evs2)"
            by (cases "build_folders env options config (folders config) s1") auto
          with True Inr present su r1 b have "evs = evs1 @ evs2"
            by (cases r2) (simp_all add: build_def)
          with none f have "find (invoked_with fi) evs2 = Some e"
            by (simp add: find_append)
          with build_folders_first_invocation [OF flds] show ?thesis .
        qed
      qed
    qed
  qed
qed

theorem first_stage_receives_undefined_witness:
  "fst (build demo_env demo_options demo_sys) = Inr True
   \<and> find (invoked_with (getFileInfo demo_env demo_b))
         (snd (snd (build demo_env demo_options demo_sys)))
       = Some (Invoke (getFileInfo demo_env demo_b) Undefined)"
proof -
  have f: "find (invoked_with (getFileInfo demo_env demo_b))
             (snd (snd (build demo_env demo_options demo_sys)))
           = Some (Invoke (getFileInfo demo_env demo_b) Undefined)"
    by (simp add: demo_build_events(2) demo_env_simps demo_a_def demo_b_def)
  from first_stage_receives_undefined [OF demo_build f] demo_build_events(1) f show ?thesis
    by simp
qed




text \<open>
  C6, as the code has it. When the orchestrator returns \<^verbatim>\<open>true\<close> for a configuration,
  the setup phase has succeeded, and in the store it leaves the root output path exists,
  as a directory unless a regular file was at that path before, and every path of
  \<^verbatim>\<open>outDirs\<close> is a directory together with all its leading segments, whatever was
  there before. The folders are built from that store; when no pipeline entry removes
  what exists, all of this still holds in the store at return. The setup phase tolerates
  what is already there: on an existing root and existing \<^verbatim>\<open>outDirs\<close> directories it
  succeeds and changes nothing, and it succeeds whenever the root exists or its parent is
  a directory and no regular file lies on a path of \<^verbatim>\<open>outDirs\<close>.
\<close>

theorem output_directories_exist:
  "(build env options s = (Inr True, s', evs) \<longrightarrow>
    require env (config_file env) = Inr config \<longrightarrow>
    (\<exists>s1 evs1 evs2.
       setup_output env options config s = (Inr (), s1, evs1)
       \<and> build_folders env options config (folders config) s1 = (Inr (), s', evs2)
       \<and> existsSync (files s1) (cwd env @ resolveOutDir env config '':output:'')
       \<and> ((\<forall>c. files s (cwd env @ resolveOutDir env config '':output:'') \<noteq> Some (File c)) \<longrightarrow>
            is_dir (files s1) (cwd env @ resolveOutDir env config '':output:''))
       \<and> (\<forall>(k, v) \<in> set (outDirs config).
             \<forall>n. is_dir (files s1) (take n (cwd env @ resolveOutDir env config v)))
       \<and> ((\<forall>fld \<in> set (folders config). \<forall>p \<in> set (filePipeline fld). keeps_files p) \<longrightarrow>
            existsSync (files s') (cwd env @ resolveOutDir env config '':output:'')
            \<and> ((\<forall>c. files s (cwd env @ resolveOutDir env config '':output:'') \<noteq> Some (File c)) \<longrightarrow>
                 is_dir (files s') (cwd env @ resolveOutDir env config '':output:''))
            \<and> (\<forall>(k, v) \<in> set (outDirs config).
                  \<forall>n. is_dir (files s') (take n (cwd env @ resolveOutDir env config v))))))
   \<and> (existsSync (files t) (cwd env @ resolveOutDir env config '':output:'') \<longrightarrow>
      (\<forall>(k, v) \<in> set (outDirs config).
         \<forall>n. is_dir (files t) (take n (cwd env @ resolveOutDir env config v))) \<longrightarrow>
      setup_output env options config t =
        (Inr (), t, spinner_stop options @ [LogVerb OutputDirExists] @ spinner_start options))
   \<and> (existsSync (files w) (cwd env @ resolveOutDir env config '':output:'')
        \<or> is_dir (files w) (butlast (cwd env @ resolveOutDir env config '':output:'')) \<longrightarrow>
      (\<forall>(k, v) \<in> set (outDirs config).
         clear_of_files (files w) (cwd env @ resolveOutDir env config v)) \<longrightarrow>
      (\<exists>w1 evs1. setup_output env options config w = (Inr (), w1, evs1)))"
proof (intro conjI impI)
  assume b: "build env options s = (Inr True, s', evs)"
    and req: "require env (config_file env) = Inr config"
  let ?root = "cwd env @ resolveOutDir env config '':output:''"
  from build_success [OF b] req obtain s1 evs1 evs2 where
    su: "setup_output env options config s = (Inr (), s1, evs1)" and
    bf: "build_folders env options config (folders config) s1 = (Inr (), s', evs2)"
    by auto
  note d = setup_output_dirs [OF su]
  have r: "is_dir (files s1) ?root" if "\<forall>c. files s ?root \<noteq> Some (File c)"
    using setup_output_root_is_dir [OF su that] .
  have "existsSync (files s') ?root
        \<and> ((\<forall>c. files s ?root \<noteq> Some (File c)) \<longrightarrow> is_dir (files s') ?root)
        \<and> (\<forall>(k, v) \<in> set (outDirs config).
              \<forall>n. is_dir (files s') (take n (cwd env @ resolveOutDir env config v)))"
    if keep: "\<forall>fld \<in> set (folders config). \<forall>p \<in> set (filePipeline fld). keeps_files p"
  proof -
    from build_folders_keeps [OF bf keep] have le: "preserves (files s1) (files s')" .
    from d(2) le have "existsSync (files s') ?root"
      by (simp add: preserves_def)
    moreover from r le have "(\<forall>c. files s ?root \<noteq> Some (File c)) \<longrightarrow> is_dir (files s') ?root"
      by (simp add: preserves_def)
    moreover from d(3) le have
      "\<forall>(k, v) \<in> set (outDirs config).
         \<forall>n. is_dir (files s') (take n (cwd env @ resolveOutDir env config v))"
      by (auto simp: preserves_def)
    ultimately show ?thesis by simp
  qed
  with su bf d r show "\<exists>s1 evs1 evs2.
       setup_output env options config s = (Inr (), s1, evs1)
       \<and> build_folders env options config (folders config) s1 = (Inr (), s', evs2)
       \<and> existsSync (files s1) ?root
       \<and> ((\<forall>c. files s ?root \<noteq> Some (File c)) \<longrightarrow> is_dir (files s1) ?root)
       \<and> (\<forall>(k, v) \<in> set (outDirs config).
             \<forall>n. is_dir (files s1) (take n (cwd env @ resolveOutDir env config v)))
       \<and> ((\<forall>fld \<in> set (folders config). \<forall>p \<in> set (filePipeline fld). keeps_files p) \<longrightarrow>
            existsSync (files s') ?root
            \<and> ((\<forall>c. files s ?root \<noteq> Some (File c)) \<longrightarrow> is_dir (files s') ?root)
            \<and> (\<forall>(k, v) \<in> set (outDirs config).
                  \<forall>n. is_dir (files s') (take n (cwd env @ resolveOutDir env config v))))"
    by blast
next
  assume "existsSync (files t) (cwd env @ resolveOutDir env config '':output:'')"
    and "\<forall>(k, v) \<in> set (outDirs config).
           \<forall>n. is_dir (files t) (take n (cwd env @ resolveOutDir env config v))"
  then show "setup_output env options config t =
        (Inr (), t, spinner_stop options @ [LogVerb OutputDirExists] @ spinner_start options)"
    by (rule setup_output_existing)
next
  assume "existsSync (files w) (cwd env @ resolveOutDir env config '':output:'')
        \<or> is_dir (files w) (butlast (cwd env @ resolveOutDir env config '':output:''))"
    and "\<forall>(k, v) \<in> set (outDirs config).
         clear_of_files (files w) (cwd env @ resolveOutDir env config v)"
  then show "\<exists>w1 evs1. setup_output env options config w = (Inr (), w1, evs1)"
    by (rule setup_output_succeeds)
qed

theorem output_directories_exist_witness:
  "fst (build demo_env demo_options demo_sys) = Inr True
   \<and> require demo_env (config_file demo_env) = Inr demo_config
   \<and> keeps_files (Fn demo_title) \<and> keeps_files (NotFn :: string pipe) \<and> keeps_files (Fn demo_mark)
   \<and> \<not> existsSync (files demo_sys) [''proj'', ''dist'']
   \<and> is_dir (files (fst (snd (build demo_env demo_options demo_sys)))) [''proj'', ''dist'']
   \<and> is_dir (files (fst (snd (build demo_env demo_options demo_sys)))) [''proj'', ''dist'', ''html'']
   \<and> existsSync (files demo_sys_ready) [''proj'', ''dist'']
   \<and> setup_output demo_env demo_options demo_config demo_sys_ready =
       (Inr (), demo_sys_ready, [SpinnerStop, LogVerb OutputDirExists, SpinnerStart])
   \<and> is_dir (files demo_sys) [''proj'']
   \<and> fst (setup_output demo_env demo_options demo_config demo_sys) = Inr ()"
proof -
  note inst = output_directories_exist
    [where env = demo_env and options = demo_options and config = demo_config
       and s = demo_sys and s' = "fst (snd (build demo_env demo_options demo_sys))"
       and evs = "snd (snd (build demo_env demo_options demo_sys))"
       and t = demo_sys_ready and w = demo_sys]
  have req: "require demo_env (config_file demo_env) = Inr demo_config"
    by (simp add: demo_env_simps)
  have absent: "\<not> existsSync (files demo_sys) [''proj'', ''dist'']"
    "\<forall>c. files demo_sys [''proj'', ''dist''] \<noteq> Some (File c)"
    by (simp_all add: existsSync_def demo_sys_def demo_files_def)
  have parent: "is_dir (files demo_sys) [''proj'']"
    by (simp add: is_dir_def demo_sys_def demo_files_def)
  have there: "existsSync (files demo_sys_ready) [''proj'', ''dist'']"
    by (simp add: existsSync_def demo_sys_ready_def)
  from inst [THEN conjunct1, rule_format, OF demo_build req] obtain s1 where
    k: "(\<forall>fld \<in> set (folders demo_config). \<forall>p \<in> set (filePipeline fld). keeps_files p) \<longrightarrow>
          existsSync (files (fst (snd (build demo_env demo_options demo_sys))))
            (cwd demo_env @ resolveOutDir demo_env demo_config '':output:'')
          \<and> ((\<forall>c. files demo_sys (cwd demo_env @ resolveOutDir demo_env demo_config '':output:'')
                    \<noteq> Some (File c)) \<longrightarrow>
               is_dir (files (fst (snd (build demo_env demo_options demo_sys))))
                 (cwd demo_env @ resolveOutDir demo_env demo_config '':output:''))
          \<and> (\<forall>(k, v) \<in> set (outDirs demo_config).
                \<forall>n. is_dir (files (fst (snd (build demo_env demo_options demo_sys))))
                      (take n (cwd demo_env @ resolveOutDir demo_env demo_config v)))"
    by blast
  from k [rule_format, OF demo_keeps [rule_format]] have
    root': "(\<forall>c. files demo_sys (cwd demo_env @ resolveOutDir demo_env demo_config '':output:'')
                    \<noteq> Some (File c)) \<longrightarrow>
               is_dir (files (fst (snd (build demo_env demo_options demo_sys))))
                 (cwd demo_env @ resolveOutDir demo_env demo_config '':output:'')" and
    subs: "\<forall>(k, v) \<in> set (outDirs demo_config).
             \<forall>n. is_dir (files (fst (snd (build demo_env demo_options demo_sys))))
                   (take n (cwd demo_env @ resolveOutDir demo_env demo_config v))"
    by simp_all
  from root' absent(2) have
    root: "is_dir (files (fst (snd (build demo_env demo_options demo_sys)))) [''proj'', ''dist'']"
    by (simp add: demo_env_simps)
  from subs have
    "\<forall>n. is_dir (files (fst (snd (build demo_env demo_options demo_sys))))
            (take n [''proj'', ''dist'', ''html''])"
    by (simp add: demo_config_simps demo_env_simps)
  from this [rule_format, of 3] have
    html: "is_dir (files (fst (snd (build demo_env demo_options demo_sys))))
             [''proj'', ''dist'', ''html'']"
    by simp
  from inst [THEN conjunct2, THEN conjunct1] there demo_out_dir_ready have
    tol: "setup_output demo_env demo_options demo_config demo_sys_ready =
            (Inr (), demo_sys_ready, [SpinnerStop, LogVerb OutputDirExists, SpinnerStart])"
    by (simp add: demo_env_simps demo_config_simps demo_options_def
        spinner_stop_def spinner_start_def)
  from inst [THEN conjunct2, THEN conjunct2] parent demo_out_dir_clear have
    "\<exists>w1 evs1. setup_output demo_env demo_options demo_config demo_sys = (Inr (), w1, evs1)"
    by (simp add: demo_env_simps demo_config_simps)
  then have tot: "fst (setup_output demo_env demo_options demo_config demo_sys) = Inr ()"
    by auto
  from demo_build_events(1) req demo_keeps absent(1) root html there tol parent tot
  show ?thesis by (simp add: demo_config_simps)
qed

text \<open>
  The claim C6 as the specification words it fails on a stage that removes a directory:
  in the sample project whose last stage removes \<^verbatim>\<open>dist/html\<close>, the orchestrator
  returns \<^verbatim>\<open>true\<close> and the entry of \<^verbatim>\<open>outDirs\<close> is not on disk.
\<close>

theorem removing_stage_leaves_output_dir_absent:
  "fst (build demo_removing_env demo_options demo_sys) = Inr True
   \<and> outDirs demo_removing_config = [(''html'', ''dist/html'')]
   \<and> cwd demo_removing_env @ resolveOutDir demo_removing_env demo_removing_config ''dist/html''
       = [''proj'', ''dist'', ''html'']
   \<and> \<not> existsSync (files (fst (snd (build demo_removing_env demo_options demo_sys))))
         [''proj'', ''dist'', ''html'']"
  by (simp add: demo_removing_env_simps demo_remove_def demo_eval)


text \<open>
  C8. Without \<^verbatim>\<open>inert.config.js\<close> in the project root the orchestrator returns
  \<^verbatim>\<open>false\<close> at once: it prints the three lines of the diagnostic, does not load a
  configuration, and leaves the store as it found it. The other guarded failure, a missing
  source directory, also ends in the result \<^verbatim>\<open>false\<close>. Neither is an exception.
\<close>

theorem precondition_failures_return_false:
  "(\<not> existsSync (files s) (config_file env) \<longrightarrow>
      build env options s =
        (Inr False, s,
         spinner_stop options
           @ [LogError NotAValidProject, LogError CreateProjectHint,
              LogError (InitCommand (cwd env))]
           @ spinner_start options))
   \<and> (existsSync (files s) (config_file env) \<longrightarrow>
      require env (config_file env) = Inr config \<longrightarrow>
      source_dir_missing env config s \<longrightarrow>
      build env options s =
        (Inr False, s,
         spinner_stop options @ [LogError MissingSourceDirs] @ spinner_start options))"
  by (simp add: build_def)

theorem precondition_failures_return_false_witness:
  "\<not> existsSync (files demo_sys_no_config) (config_file demo_env)
   \<and> build demo_env demo_options demo_sys_no_config =
       (Inr False, demo_sys_no_config,
        [SpinnerStop, LogError NotAValidProject, LogError CreateProjectHint,
         LogError (InitCommand [''proj'']), SpinnerStart])
   \<and> existsSync (files demo_sys_no_assets) (config_file demo_env)
   \<and> require demo_env (config_file demo_env) = Inr demo_config
   \<and> source_dir_missing demo_env demo_config demo_sys_no_assets
   \<and> build demo_env demo_options demo_sys_no_assets =
       (Inr False, demo_sys_no_assets, [SpinnerStop, LogError MissingSourceDirs, SpinnerStart])"
proof -
  have a: "\<not> existsSync (files demo_sys_no_config) (config_file demo_env)"
    by (simp add: demo_sys_no_config_def demo_eval)
  have b: "existsSync (files demo_sys_no_assets) (config_file demo_env)"
    by (simp add: demo_sys_no_assets_def demo_eval)
  have c: "require demo_env (config_file demo_env) = Inr demo_config"
    by (simp add: demo_env_simps)
  have d: "source_dir_missing demo_env demo_config demo_sys_no_assets"
    by (simp add: demo_sys_no_assets_def demo_eval)
  from precondition_failures_return_false
         [of demo_sys_no_config demo_env demo_options demo_config]
       precondition_failures_return_false
         [of demo_sys_no_assets demo_env demo_options demo_config]
       a b c d
  show ?thesis
    by (simp add: demo_options_def spinner_stop_def spinner_start_def demo_env_simps)
qed

text \<open>
  C5, as the code has it. The files of a folder are processed one after another, each
  pipeline starting from \<^verbatim>\<open>undefined\<close> in the store the files before it left. A stage
  that throws is not caught: the loop over the files ends with that exception and no
  pipeline is started for the files that follow (when the pipeline returns, the loop goes
  on with the next file); the loop over the folders ends with it, and it is the outcome
  of the build.
\<close>

theorem stage_failure_ends_file_loop:
  "(build_files env options config pipeline before s = (Inr u, s1, evs1) \<longrightarrow>
      build_files env options config pipeline (before @ fl # rest) s =
        (case run_pipeline env options config fl pipeline Undefined s1 of
           (Inl e, s2, evs2) \<Rightarrow> (Inl e, s2, evs1 @ evs2)
         | (Inr res, s2, evs2) \<Rightarrow>
             (case build_files env options config pipeline rest s2 of
                (r, s3, evs3) \<Rightarrow> (r, s3, evs1 @ evs2 @ evs3))))
   \<and> (traverse env (cwd env @ resolveSourceDir env config (folder fld)) False
        (recursive_flag (traverseLevel fld)) (files t) = Inr fls \<longrightarrow>
      build_files env options config (filePipeline fld) fls t = (Inl ex, t', evs) \<longrightarrow>
      build_folders env options config (fld # later) t =
        (Inl ex, t',
         spinner_stop options
           @ [LogVerb (Building (cwd env @ resolveSourceDir env config (folder fld)))]
           @ spinner_start options
           @ Traverse (cwd env @ resolveSourceDir env config (folder fld)) False
               (recursive_flag (traverseLevel fld)) fls # evs))
   \<and> (existsSync (files w) (config_file env) \<longrightarrow>
      require env (config_file env) = Inr config \<longrightarrow>
      \<not> source_dir_missing env config w \<longrightarrow>
      setup_output env options config w = (Inr u', w0, evs0) \<longrightarrow>
      build_folders env options config (folders config) w0 = (Inl ex', w', evs') \<longrightarrow>
      build env options w = (Inl ex', w', evs0 @ evs'))"
  by (simp add: build_files_append build_def Let_def split: prod.splits sum.splits)

theorem stage_failure_ends_file_loop_witness:
  "build_files demo_env demo_options demo_failing_config [Fn demo_fail] [demo_b] demo_sys =
     (Inr (), demo_sys, [Invoke (getFileInfo demo_env demo_b) Undefined])
   \<and> build_files demo_env demo_options demo_failing_config [Fn demo_fail]
        ([demo_b] @ demo_a # [demo_b]) demo_sys =
       (Inl (Thrown ''boom''), demo_sys,
        [Invoke (getFileInfo demo_env demo_b) Undefined,
         Invoke (getFileInfo demo_env demo_a) Undefined])
   \<and> build_folders demo_failing_env demo_options demo_failing_config
        (folders demo_failing_config) demo_sys_ready =
       (Inl (Thrown ''boom''), demo_sys_ready,
        [SpinnerStop, LogVerb (Building [''proj'', ''content'', ''posts'']), SpinnerStart,
         Traverse [''proj'', ''content'', ''posts''] False False [demo_a, demo_b],
         Invoke (getFileInfo demo_env demo_a) Undefined])
   \<and> build demo_failing_env demo_options demo_sys =
       (Inl (Thrown ''boom''), demo_sys_ready,
        [SpinnerStop, LogVerb (CreatingOutputDir [''proj'', ''dist'']), SpinnerStart,
         SpinnerStop, LogVerb (Building [''proj'', ''content'', ''posts'']), SpinnerStart,
         Traverse [''proj'', ''content'', ''posts''] False False [demo_a, demo_b],
         Invoke (getFileInfo demo_env demo_a) Undefined])"
proof -
  let ?posts = "\<lparr>folder = ''posts'', traverseLevel = ''flat'', filePipeline = [Fn demo_fail]\<rparr>
                  :: string folder_spec"
  let ?assets = "\<lparr>folder = ''assets'', traverseLevel = ''recursive'',
                   filePipeline = [Fn demo_mark]\<rparr>"
  have one: "build_files demo_env demo_options demo_failing_config [Fn demo_fail] [demo_b] demo_sys =
     (Inr (), demo_sys, [Invoke (getFileInfo demo_env demo_b) Undefined])"
    by (simp add: demo_fail_def demo_env_simps demo_b_def)
  have tr: "traverse demo_failing_env
              (cwd demo_failing_env @ resolveSourceDir demo_failing_env demo_failing_config
                 (folder ?posts)) False
              (recursive_flag (traverseLevel ?posts)) (files demo_sys_ready)
            = Inr [demo_a, demo_b]"
    by (simp add: demo_failing_env_simps demo_env_simps demo_a_def demo_b_def recursive_flag_def)
  have fl: "build_files demo_failing_env demo_options demo_failing_config (filePipeline ?posts)
              [demo_a, demo_b] demo_sys_ready
            = (Inl (Thrown ''boom''), demo_sys_ready,
               [Invoke (getFileInfo demo_env demo_a) Undefined])"
    by (simp add: demo_fail_def demo_failing_env_simps demo_env_simps demo_a_def)
  have ex: "existsSync (files demo_sys) (config_file demo_failing_env)"
    by (simp add: demo_failing_env_simps demo_eval)
  have req: "require demo_failing_env (config_file demo_failing_env) = Inr demo_failing_config"
    by (simp add: demo_failing_env_simps)
  have src: "\<not> source_dir_missing demo_failing_env demo_failing_config demo_sys"
    by (simp add: demo_failing_env_simps demo_eval)
  have su: "setup_output demo_failing_env demo_options demo_failing_config demo_sys =
              (Inr (), demo_sys_ready,
               [SpinnerStop, LogVerb (CreatingOutputDir [''proj'', ''dist'']), SpinnerStart])"
    by (simp add: demo_sys_ready_def demo_failing_env_simps demo_eval)
  note inst = stage_failure_ends_file_loop
    [where env = demo_failing_env and options = demo_options and config = demo_failing_config
       and pipeline = "[Fn demo_fail]" and before = "[demo_b]" and s = demo_sys and u = "()"
       and ?s1.0 = demo_sys and ?evs1.0 = "[Invoke (getFileInfo demo_env demo_b) Undefined]"
       and fl = demo_a and rest = "[demo_b]"
       and fld = ?posts and later = "[?assets]" and t = demo_sys_ready and fls = "[demo_a, demo_b]"
       and ex = "Thrown ''boom''" and t' = demo_sys_ready
       and evs = "[Invoke (getFileInfo demo_env demo_a) Undefined]"
       and w = demo_sys and u' = "()" and ?w0.0 = demo_sys_ready
       and ?evs0.0 = "[SpinnerStop, LogVerb (CreatingOutputDir [''proj'', ''dist'']), SpinnerStart]"
       and ex' = "Thrown ''boom''" and w' = demo_sys_ready
       and evs' = "[SpinnerStop, LogVerb (Building [''proj'', ''content'', ''posts'']), SpinnerStart,
                    Traverse [''proj'', ''content'', ''posts''] False False [demo_a, demo_b],
                    Invoke (getFileInfo demo_env demo_a) Undefined]"]
  from inst one have c1: "build_files demo_env demo_options demo_failing_config [Fn demo_fail]
        ([demo_b] @ demo_a # [demo_b]) demo_sys =
       (Inl (Thrown ''boom''), demo_sys,
        [Invoke (getFileInfo demo_env demo_b) Undefined,
         Invoke (getFileInfo demo_env demo_a) Undefined])"
    by (simp add: demo_fail_def demo_env_simps demo_a_def demo_b_def)
  from inst tr fl have
    c2: "build_folders demo_failing_env demo_options demo_failing_config [?posts, ?assets]
           demo_sys_ready =
         (Inl (Thrown ''boom''), demo_sys_ready,
          [SpinnerStop, LogVerb (Building [''proj'', ''content'', ''posts'']), SpinnerStart,
           Traverse [''proj'', ''content'', ''posts''] False False [demo_a, demo_b],
           Invoke (getFileInfo demo_env demo_a) Undefined])"
    by (simp add: demo_failing_env_simps demo_env_simps demo_options_def
        spinner_stop_def spinner_start_def recursive_flag_def)
  then have c2': "build_folders demo_failing_env demo_options demo_failing_config
           (folders demo_failing_config) demo_sys_ready =
         (Inl (Thrown ''boom''), demo_sys_ready,
          [SpinnerStop, LogVerb (Building [''proj'', ''content'', ''posts'']), SpinnerStart,
           Traverse [''proj'', ''content'', ''posts''] False False [demo_a, demo_b],
           Invoke (getFileInfo demo_env demo_a) Undefined])"
    by (simp add: demo_failing_env_simps)
  from inst ex req src su c2' have
    c3: "build demo_failing_env demo_options demo_sys =
       (Inl (Thrown ''boom''), demo_sys_ready,
        [SpinnerStop, LogVerb (CreatingOutputDir [''proj'', ''dist'']), SpinnerStart,
         SpinnerStop, LogVerb (Building [''proj'', ''content'', ''posts'']), SpinnerStart,
         Traverse [''proj'', ''content'', ''posts''] False False [demo_a, demo_b],
         Invoke (getFileInfo demo_env demo_a) Undefined])"
    by simp
  from one c1 c2' c3 show ?thesis by simp
qed

text \<open>
  The claim C5 as the specification words it fails: in the sample project the pipeline
  of \<^verbatim>\<open>b.md\<close> returns when run alone, but after the stage has thrown on \<^verbatim>\<open>a.md\<close>
  no stage is called for \<^verbatim>\<open>b.md\<close>, in the loop over the files and in the whole build.
\<close>

theorem stage_failure_blocks_later_files:
  "fst (run_pipeline demo_env demo_options demo_failing_config demo_b [Fn demo_fail]
          Undefined demo_sys) = Inr (Value ''b.md'')
   \<and> build_files demo_env demo_options demo_failing_config [Fn demo_fail] [demo_a, demo_b] demo_sys
       = (Inl (Thrown ''boom''), demo_sys, [Invoke (getFileInfo demo_env demo_a) Undefined])
   \<and> fst (build demo_failing_env demo_options demo_sys) = Inl (Thrown ''boom'')
   \<and> invoked (snd (snd (build demo_failing_env demo_options demo_sys)))
       = [getFileInfo demo_env demo_a]"
  by (simp add: demo_failing_env_simps demo_eval)

text \<open>
  C1. The third argument of file discovery is true exactly for the traversal level
  \<^verbatim>\<open>rescursive\<close>, as line 83 spells it. For the level \<^verbatim>\<open>recursive\<close> it is false, and
  a folder with that level is built exactly as a flat one: in the sample project the
  nested file of \<^verbatim>\<open>assets\<close>, which discovery returns when asked recursively, is not
  discovered.
\<close>

theorem recursive_level_built_as_flat:
  "recursive_flag level = (level = ''rescursive'')
   \<and> recursive_flag ''recursive'' = False
   \<and> build_folders env options config (fld\<lparr>traverseLevel := ''recursive''\<rparr> # rest) s
       = build_folders env options config (fld\<lparr>traverseLevel := ''flat''\<rparr> # rest) s
   \<and> traverse demo_env [''proj'', ''assets''] False True (files demo_sys)
       = Inr [[''proj'', ''assets'', ''logo.png''], [''proj'', ''assets'', ''img'', ''x.png'']]
   \<and> discovered (snd (snd (build demo_env demo_options demo_sys)))
       = [[demo_a, demo_b], [[''proj'', ''assets'', ''logo.png'']]]"
proof -
  have "build_folders env options config (fld\<lparr>traverseLevel := ''recursive''\<rparr> # rest) s
       = build_folders env options config (fld\<lparr>traverseLevel := ''flat''\<rparr> # rest) s"
    by (simp add: recursive_flag_def Let_def split: sum.splits prod.splits)
  then show ?thesis
    by (simp add: recursive_flag_def demo_build_events(2) demo_env_simps)
qed

end
